theory Spec2Isabelle
  imports Complex_Main "HOL-Library.Word" "HOL-Library.Signed_Division" "HOL-Library.Log_Nat"
begin

section \<open>Go values used by the gateway\<close>

text \<open>
  The gateway is a Go program. Its \<^verbatim>\<open>int\<close> is the 64-bit two's-complement integer of
  the usual platforms: addition, subtraction and multiplication wrap around, and
  comparisons are signed (\<open><s\<close>, \<open>\<le>s\<close>).
\<close>

type_synonym int64 = "64 word"

text \<open>Go's builtin \<^verbatim>\<open>min\<close> on two \<^verbatim>\<open>int\<close>s.\<close>

definition min64 :: "int64 \<Rightarrow> int64 \<Rightarrow> int64" where
  "min64 a b = (if b <s a then b else a)"

text \<open>
  \<^verbatim>\<open>time.Time\<close> is an instant of the monotonic clock, counted in nanoseconds from an
  arbitrary origin; \<^verbatim>\<open>time.Duration\<close> is an \<^verbatim>\<open>int64\<close> count of nanoseconds.
  \<^verbatim>\<open>t.Sub(u)\<close> is the difference \<open>t - u\<close>, and the library saturates it at the largest
  and the smallest duration.
\<close>

type_synonym Time = int
type_synonym Duration = "64 word"

definition Second :: Duration where
  "Second = 1000000000"

definition maxDuration :: int where
  "maxDuration = 9223372036854775807"

definition minDuration :: int where
  "minDuration = - 9223372036854775808"

definition Time_Sub :: "Time \<Rightarrow> Time \<Rightarrow> Duration" where
  "Time_Sub t u =
     (let d = t - u in
      if maxDuration < d then word_of_int maxDuration
      else if d < minDuration then word_of_int minDuration
      else word_of_int d)"

text \<open>
  A \<^verbatim>\<open>float64\<close> value is modelled by the rational number it denotes. Every operation
  rounds its exact result to the nearest number that has a significand of 53 bits, a
  tie to the one with the even significand, as the binary64 format of IEEE 754 does.
  \<open>binade x\<close> is the exponent \<open>e\<close> with \<open>2\<^sup>e \<le> |x| < 2\<^sup>e\<^sup>+\<^sup>1\<close>; a significand of 53 bits
  at that exponent is a multiple of \<open>2\<^sup>e\<^sup>-\<^sup>5\<^sup>2\<close>. The bounds of the exponent are not
  modelled: the values that arise below are zero or lie between \<open>2\<^sup>-\<^sup>6\<^sup>4\<close> and \<open>2\<^sup>1\<^sup>2\<^sup>8\<close>,
  far from overflow and from the subnormal numbers.
\<close>

definition round_half_even :: "rat \<Rightarrow> int" where
  "round_half_even t =
     (let f = \<lfloor>t\<rfloor>; r = t - of_int f
      in if r < 1 / 2 then f else if 1 / 2 < r then f + 1 else if even f then f else f + 1)"

definition binade :: "rat \<Rightarrow> int" where
  "binade x = (if 1 \<le> \<bar>x\<bar> then bitlen \<lfloor>\<bar>x\<bar>\<rfloor> - 1 else - bitlen (\<lceil>1 / \<bar>x\<bar>\<rceil> - 1))"

definition float_round :: "rat \<Rightarrow> rat" where
  "float_round x =
     (if x = 0 then 0
      else (let ulp = 2 powi (binade x - 52)
            in of_int (round_half_even (x / ulp)) * ulp))"

text \<open>
  The conversion \<^verbatim>\<open>float64(n)\<close> of an integer and the operations \<^verbatim>\<open>+\<close>, \<^verbatim>\<open>*\<close> and \<^verbatim>\<open>/\<close>, each
  rounded on its own. \<open>float_quo\<close> is the division by a divisor that is not zero. A
  division by zero yields an infinity or a NaN, which is no rational: \<open>None\<close>.
\<close>

definition float64 :: "int \<Rightarrow> rat" where
  "float64 n = float_round (of_int n)"

definition float_add :: "rat \<Rightarrow> rat \<Rightarrow> rat" where
  "float_add x y = float_round (x + y)"

definition float_mul :: "rat \<Rightarrow> rat \<Rightarrow> rat" where
  "float_mul x y = float_round (x * y)"

definition float_quo :: "rat \<Rightarrow> rat \<Rightarrow> rat" where
  "float_quo x y = float_round (x / y)"

definition float_div :: "rat \<Rightarrow> rat \<Rightarrow> rat option" where
  "float_div x y = (if y = 0 then None else Some (float_quo x y))"

text \<open>
  The conversion \<^verbatim>\<open>int(f)\<close> truncates towards zero; for a value that does not fit the
  64 bits Go leaves the result to the implementation, which is \<open>None\<close> here.
\<close>

definition trunc0 :: "rat \<Rightarrow> int" where
  "trunc0 x = (if 0 \<le> x then \<lfloor>x\<rfloor> else \<lceil>x\<rceil>)"

definition float_to_int :: "rat \<Rightarrow> int64 option" where
  "float_to_int x =
     (let n = trunc0 x in
      if - 9223372036854775808 \<le> n \<and> n \<le> 9223372036854775807
      then Some (word_of_int n) else None)"

text \<open>
  \<^verbatim>\<open>d.Seconds()\<close> of the library:
  \<^verbatim>\<open>sec := d / Second; nsec := d % Second; return float64(sec) + float64(nsec)/1e9\<close>
  with Go's truncating \<^verbatim>\<open>/\<close> and \<^verbatim>\<open>%\<close> on the integers.
\<close>

definition Seconds :: "Duration \<Rightarrow> rat" where
  "Seconds d =
     (let sec = sint d sdiv sint Second;
          nsec = sint d smod sint Second
      in float_add (float64 sec) (float_quo (float64 nsec) 1000000000))"

section \<open>The token bucket (limit.go)\<close>

text \<open>
  The struct \<^verbatim>\<open>TokenBucket\<close>. The mutex \<^verbatim>\<open>mu\<close> is held for the whole of \<^verbatim>\<open>Allow\<close> and
  has no field here: a call of \<^verbatim>\<open>Allow\<close> is one step of the model.
\<close>

record TokenBucket =
  Cap :: int64
  Rate :: int64
  interval :: Duration
  Tokens :: int64
  LastCheck :: Time

text \<open>\<^verbatim>\<open>NewTokenBucket(cap, rate)\<close>, called when the clock reads \<open>now\<close>.\<close>

definition NewTokenBucket :: "int64 \<Rightarrow> int64 \<Rightarrow> Time \<Rightarrow> TokenBucket" where
  "NewTokenBucket cap rate now =
     \<lparr>Cap = cap, Rate = rate, interval = 1 * Second, Tokens = cap, LastCheck = now\<rparr>"

text \<open>
  \<^verbatim>\<open>Allow\<close> in three steps, in the order of the source. First the number of tokens to
  add:
  \<^verbatim>\<open>int(duration.Seconds() * float64(tb.Rate) / tb.interval.Seconds())\<close>
  with \<^verbatim>\<open>duration := now.Sub(tb.LastCheck)\<close>.
\<close>

definition newTokens :: "TokenBucket \<Rightarrow> Time \<Rightarrow> int64 option" where
  "newTokens tb now =
     (let duration = Time_Sub now (LastCheck tb) in
      case float_div (float_mul (Seconds duration) (float64 (sint (Rate tb))))
             (Seconds (interval tb)) of
        None \<Rightarrow> None
      | Some q \<Rightarrow> float_to_int q)"

text \<open>
  Then the refill:
  \<^verbatim>\<open>if tokens > 0 { tb.Tokens = min(tb.Tokens+tokens, tb.Cap); tb.LastCheck = now }\<close>
\<close>

definition refill :: "TokenBucket \<Rightarrow> Time \<Rightarrow> int64 \<Rightarrow> TokenBucket" where
  "refill tb now tokens =
     (if 0 <s tokens
      then tb\<lparr>Tokens := min64 (Tokens tb + tokens) (Cap tb), LastCheck := now\<rparr>
      else tb)"

text \<open>
  Then the attempt to take one token:
  \<^verbatim>\<open>if tb.Tokens > 0 { tb.Tokens--; return true }; return false\<close>
\<close>

definition acquire :: "TokenBucket \<Rightarrow> bool \<times> TokenBucket" where
  "acquire tb =
     (if 0 <s Tokens tb then (True, tb\<lparr>Tokens := Tokens tb - 1\<rparr>) else (False, tb))"

definition Allow :: "TokenBucket \<Rightarrow> Time \<Rightarrow> (bool \<times> TokenBucket) option" where
  "Allow tb now =
     (case newTokens tb now of
        None \<Rightarrow> None
      | Some tokens \<Rightarrow> Some (acquire (refill tb now tokens)))"

text \<open>
  Consecutive calls of \<^verbatim>\<open>Allow\<close> on one bucket, the clock reading \<open>ts\<close> at the calls:
  the answer of each call with the bucket as the call left it.
\<close>

fun Allows :: "TokenBucket \<Rightarrow> Time list \<Rightarrow> (bool \<times> TokenBucket) list option" where
  "Allows tb [] = Some []"
| "Allows tb (t # ts) =
     (case Allow tb t of
        None \<Rightarrow> None
      | Some (ok, tb') \<Rightarrow>
          (case Allows tb' ts of
             None \<Rightarrow> None
           | Some rs \<Rightarrow> Some ((ok, tb') # rs)))"

section \<open>Requests, response writers and handlers\<close>

text \<open>
  What a handler reads of \<^verbatim>\<open>*http.Request\<close>: the method, \<^verbatim>\<open>r.URL.Path\<close> and the header.
  The keys of a header map are in the canonical form that \<^verbatim>\<open>Get\<close> and \<^verbatim>\<open>Set\<close> give them
  (\<^verbatim>\<open>X-Api-Key\<close> for \<^verbatim>\<open>X-API-Key\<close>).
\<close>

record Request =
  Method :: string
  URL_Path :: string
  Req_Header :: "string \<rightharpoonup> string list"

text \<open>\<^verbatim>\<open>Header.Get\<close>: the first value of the key, the empty string when there is none.\<close>

definition Header_Get :: "(string \<rightharpoonup> string list) \<Rightarrow> string \<Rightarrow> string" where
  "Header_Get h k = (case h k of None \<Rightarrow> [] | Some [] \<Rightarrow> [] | Some (v # _) \<Rightarrow> v)"

text \<open>
  The response of the connection, as \<^verbatim>\<open>net/http\<close> keeps it: the header map, the status
  code of the first \<^verbatim>\<open>WriteHeader\<close> (later calls are ignored by the library), and the
  body written so far.
\<close>

record Response =
  resp_header :: "string \<rightharpoonup> string list"
  resp_status :: "int option"
  resp_body :: string

text \<open>
  An \<^verbatim>\<open>http.ResponseWriter\<close> is the connection's writer or a pointer to a
  \<^verbatim>\<open>ResponseWriterWrapper\<close> (main.go) that embeds another writer. The wrapper's field
  \<^verbatim>\<open>StatusCode\<close> is mutable and lives in the state, under the wrapper's address.
\<close>

datatype Writer = Conn | Wrapper nat Writer

text \<open>The lines that \<^verbatim>\<open>log.Printf\<close> writes, by format and arguments.\<close>

datatype LogEntry =
    AuthMissingLog string string
  | AuthOkLog string string string
  | AuthInvalidLog string string string
  | RateLimitLog string string
  | AccessLog string string int rat

text \<open>
  The state a request is served in: the clock that \<^verbatim>\<open>time.Now()\<close> reads, the response,
  the wrappers allocated so far with their \<^verbatim>\<open>StatusCode\<close>, the log, the map
  \<^verbatim>\<open>routeLimiters\<close> that the rate-limit stage closes over, and the package variable
  \<^verbatim>\<open>globalLimiter\<close>.
\<close>

record State =
  clock :: Time
  response :: Response
  StatusCode :: "nat \<Rightarrow> int"
  wrappers :: nat
  logged :: "LogEntry list"
  routeLimiters :: "string \<rightharpoonup> TokenBucket"
  globalLimiter :: TokenBucket

text \<open>
  A handler \<^verbatim>\<open>func(w http.ResponseWriter, r *http.Request)\<close> changes the state. \<open>None\<close>
  is a run whose outcome the model does not determine: an \<^verbatim>\<open>int(f)\<close> that Go leaves to
  the implementation, or two goroutines racing for the writer.
\<close>

type_synonym Handler = "Writer \<Rightarrow> Request \<Rightarrow> State \<Rightarrow> State option"
type_synonym Middleware = "Handler \<Rightarrow> Handler"

definition log_Printf :: "LogEntry \<Rightarrow> State \<Rightarrow> State" where
  "log_Printf e s = s\<lparr>logged := logged s @ [e]\<rparr>"

text \<open>
  The methods of a writer. \<^verbatim>\<open>Header()\<close> and \<^verbatim>\<open>Write\<close> of a wrapper are those of the
  embedded writer; \<^verbatim>\<open>WriteHeader\<close> of a wrapper is
  \<^verbatim>\<open>w.StatusCode = statusCode; w.ResponseWriter.WriteHeader(statusCode)\<close>.
\<close>

fun Header_Set :: "Writer \<Rightarrow> string \<Rightarrow> string \<Rightarrow> State \<Rightarrow> State" where
  "Header_Set Conn k v s =
     s\<lparr>response := (response s)\<lparr>resp_header := (resp_header (response s))(k \<mapsto> [v])\<rparr>\<rparr>"
| "Header_Set (Wrapper a w) k v s = Header_Set w k v s"

fun Header_Del :: "Writer \<Rightarrow> string \<Rightarrow> State \<Rightarrow> State" where
  "Header_Del Conn k s =
     s\<lparr>response := (response s)\<lparr>resp_header := (resp_header (response s))(k := None)\<rparr>\<rparr>"
| "Header_Del (Wrapper a w) k s = Header_Del w k s"

fun WriteHeader :: "Writer \<Rightarrow> int \<Rightarrow> State \<Rightarrow> State" where
  "WriteHeader Conn statusCode s =
     (case resp_status (response s) of
        None \<Rightarrow> s\<lparr>response := (response s)\<lparr>resp_status := Some statusCode\<rparr>\<rparr>
      | Some _ \<Rightarrow> s)"
| "WriteHeader (Wrapper a w) statusCode s =
     WriteHeader w statusCode (s\<lparr>StatusCode := (StatusCode s)(a := statusCode)\<rparr>)"

fun Write :: "Writer \<Rightarrow> string \<Rightarrow> State \<Rightarrow> State" where
  "Write Conn data s =
     (let s1 = WriteHeader Conn 200 s
      in s1\<lparr>response := (response s1)\<lparr>resp_body := resp_body (response s1) @ data\<rparr>\<rparr>)"
| "Write (Wrapper a w) data s = Write w data s"

text \<open>
  \<^verbatim>\<open>http.Error(w, error, code)\<close> of the library: it drops \<^verbatim>\<open>Content-Length\<close>, sets the
  content type of a plain text, writes the status code and then the message with a
  line feed.
\<close>

definition http_Error :: "Writer \<Rightarrow> string \<Rightarrow> int \<Rightarrow> State \<Rightarrow> State" where
  "http_Error w err code s =
     (let s1 = Header_Del w ''Content-Length'' s;
          s2 = Header_Set w ''Content-Type'' ''text/plain; charset=utf-8'' s1;
          s3 = Header_Set w ''X-Content-Type-Options'' ''nosniff'' s2;
          s4 = WriteHeader w code s3
      in Write w (err @ [CHR 0x0A]) s4)"

section \<open>Configuration (config.go)\<close>

record RouteConfig =
  Path :: string
  Target :: string
  QPS :: int64

record GlobalRateLimitConfig =
  GlobalRateLimit_Cap :: int64
  GlobalRateLimit_Rate :: int64

record Config =
  Port :: string
  ApiKeys :: "string list"
  NoAuthRoutes :: "string list"
  Routes :: "RouteConfig list"
  GlobalRateLimit :: GlobalRateLimitConfig
  Timeout :: Duration

text \<open>
  \<^verbatim>\<open>loadConfig\<close>: reading the file and parsing the YAML are the library's; their result,
  an error or the parsed \<^verbatim>\<open>Config\<close>, is the argument here. The function returns the
  error, or fills in the defaults.
\<close>

datatype error = ReadFileError | UnmarshalError

definition loadConfig :: "error + Config \<Rightarrow> error + Config" where
  "loadConfig parsed =
     (case parsed of
        Inl err \<Rightarrow> Inl err
      | Inr config \<Rightarrow>
          (let c1 = (if Port config = [] then config\<lparr>Port := '':8082''\<rparr> else config);
               c2 = (if GlobalRateLimit_Cap (GlobalRateLimit c1) = 0
                     then c1\<lparr>GlobalRateLimit := (GlobalRateLimit c1)\<lparr>GlobalRateLimit_Cap := 3\<rparr>\<rparr>
                     else c1);
               c3 = (if GlobalRateLimit_Rate (GlobalRateLimit c2) = 0
                     then c2\<lparr>GlobalRateLimit := (GlobalRateLimit c2)\<lparr>GlobalRateLimit_Rate := 1\<rparr>\<rparr>
                     else c2);
               c4 = (if Timeout c3 = 0 then c3\<lparr>Timeout := 1 * Second\<rparr> else c3)
           in Inr c4))"

section \<open>The rate-limit stage (limit.go)\<close>

text \<open>
  The package variable \<^verbatim>\<open>var globalLimiter = NewTokenBucket(1, 1)\<close>, initialised when
  the clock reads \<open>now\<close>.
\<close>

definition globalLimiter_init :: "Time \<Rightarrow> TokenBucket" where
  "globalLimiter_init now = NewTokenBucket 1 1 now"

text \<open>
  The loop of \<^verbatim>\<open>RateLimitMiddleware\<close> that fills \<^verbatim>\<open>routeLimiters\<close>:
  \<^verbatim>\<open>for _, route := range rotes { if route.QPS > 0 { routeLimiters[route.Path] = NewTokenBucket(route.QPS*2, route.QPS); break } }\<close>
  The \<^verbatim>\<open>break\<close> leaves the loop after the first route that has a bucket.
\<close>

fun routeLimiters_loop ::
  "RouteConfig list \<Rightarrow> Time \<Rightarrow> (string \<rightharpoonup> TokenBucket) \<Rightarrow> (string \<rightharpoonup> TokenBucket)" where
  "routeLimiters_loop [] now m = m"
| "routeLimiters_loop (route # rotes) now m =
     (if 0 <s QPS route
      then m(Path route \<mapsto> NewTokenBucket (QPS route * 2) (QPS route) now)
      else routeLimiters_loop rotes now m)"

definition routeLimiters_make :: "RouteConfig list \<Rightarrow> Time \<Rightarrow> (string \<rightharpoonup> TokenBucket)" where
  "routeLimiters_make rotes now = routeLimiters_loop rotes now Map.empty"

text \<open>
  The \<^verbatim>\<open>*TokenBucket\<close> that a request is checked against: the bucket stored under a
  path of \<^verbatim>\<open>routeLimiters\<close>, or \<^verbatim>\<open>globalLimiter\<close>. The loop over the map that looks for
  the key equal to \<^verbatim>\<open>r.URL.Path\<close> is a lookup of that key.
\<close>

datatype Limiter = RouteLimiter string | GlobalLimiter

definition find_limiter :: "State \<Rightarrow> Request \<Rightarrow> Limiter" where
  "find_limiter s r =
     (case routeLimiters s (URL_Path r) of
        Some tb \<Rightarrow> RouteLimiter (URL_Path r)
      | None \<Rightarrow> GlobalLimiter)"

fun bucket_of :: "State \<Rightarrow> Limiter \<Rightarrow> TokenBucket option" where
  "bucket_of s (RouteLimiter path) = routeLimiters s path"
| "bucket_of s GlobalLimiter = Some (globalLimiter s)"

fun bucket_update :: "Limiter \<Rightarrow> TokenBucket \<Rightarrow> State \<Rightarrow> State" where
  "bucket_update (RouteLimiter path) tb s = s\<lparr>routeLimiters := (routeLimiters s)(path \<mapsto> tb)\<rparr>"
| "bucket_update GlobalLimiter tb s = s\<lparr>globalLimiter := tb\<rparr>"

text \<open>The answer of the stage to a request that is refused.\<close>

definition too_many_requests :: "Writer \<Rightarrow> Request \<Rightarrow> State \<Rightarrow> State" where
  "too_many_requests w r s =
     (let s1 = Header_Set w ''Retry-After'' ''1'' s;
          s2 = http_Error w ''429 Too Many Requests'' 429 s1
      in log_Printf (RateLimitLog (Method r) (URL_Path r)) s2)"

text \<open>The handler that \<^verbatim>\<open>RateLimitMiddleware\<close> returns for \<open>next\<close>.\<close>

definition RateLimitMiddleware :: Middleware where
  "RateLimitMiddleware next w r s =
     (let limiter = find_limiter s r in
      case bucket_of s limiter of
        None \<Rightarrow> None
      | Some tb \<Rightarrow>
          (case Allow tb (clock s) of
             None \<Rightarrow> None
           | Some (ok, tb') \<Rightarrow>
               (let s1 = bucket_update limiter tb' s
                in if ok then next w r s1 else Some (too_many_requests w r s1))))"

section \<open>The other stages and their composition (main.go)\<close>

definition AuthMiddleware :: "Config \<Rightarrow> Middleware" where
  "AuthMiddleware config next w r s =
     (let apiKeysSet = set (ApiKeys config);
          noAuthSet = set (NoAuthRoutes config)
      in if URL_Path r \<in> noAuthSet then next w r s
         else
           (let apiKey = Header_Get (Req_Header r) ''X-Api-Key'' in
            if apiKey = [] then
              (let s1 = Header_Set w ''Www-Authenticate'' ''X-API-Key'' s;
                   s2 = http_Error w ''401 Unauthorized: Missing X-API-Key'' 401 s1
               in Some (log_Printf (AuthMissingLog (Method r) (URL_Path r)) s2))
            else if apiKey \<in> apiKeysSet then
              next w r (log_Printf (AuthOkLog (Method r) (URL_Path r) apiKey) s)
            else
              (let s1 = http_Error w ''401 Unauthorized: Invalid X-API-Key'' 401 s
               in Some (log_Printf (AuthInvalidLog (Method r) (URL_Path r) apiKey) s1))))"

text \<open>
  \<^verbatim>\<open>LogMiddleware\<close>. The stage allocates a wrapper around \<open>w\<close>, with \<^verbatim>\<open>StatusCode\<close> zero
  as Go initialises it, and then calls \<^verbatim>\<open>next(w, r)\<close>: with \<open>w\<close>, as the source has it.
  \<^verbatim>\<open>time.Since(start)\<close> is \<^verbatim>\<open>time.Now().Sub(start)\<close>; the cost that is logged is its
  seconds times 1000.
\<close>

definition LogMiddleware :: Middleware where
  "LogMiddleware next w r s =
     (let start = clock s;
          method = Method r;
          path = URL_Path r;
          a = wrappers s;
          wrappedWriter = Wrapper a w;
          s1 = s\<lparr>wrappers := a + 1, StatusCode := (StatusCode s)(a := 0)\<rparr>
      in case next w r s1 of
           None \<Rightarrow> None
         | Some s2 \<Rightarrow>
             (let cost = float_mul (Seconds (Time_Sub (clock s2) start)) 1000
              in Some (log_Printf (AccessLog method path (StatusCode s2 a) cost) s2)))"

text \<open>
  \<^verbatim>\<open>TimeoutMiddleware\<close> runs \<open>next\<close> in a goroutine and waits for the earlier of its end
  and the deadline. When \<open>next\<close> ends before the deadline the stage returns what
  \<open>next\<close> has done. Otherwise the stage writes the 504 and a log line while \<open>next\<close> is
  still running and may write as well: the outcome depends on the scheduling of the
  two goroutines. The context with the deadline that the stage attaches to the request
  is read by \<^verbatim>\<open>proxyHandler\<close> alone, which is a parameter of \<open>main_handler\<close> below.
\<close>

definition TimeoutMiddleware :: "Duration \<Rightarrow> Middleware" where
  "TimeoutMiddleware timeout next w r s =
     (case next w r s of
        None \<Rightarrow> None
      | Some s' \<Rightarrow> if Time_Sub (clock s') (clock s) <s timeout then Some s' else None)"

definition CORSAMiddleware :: Middleware where
  "CORSAMiddleware next w r s =
     (let s1 = Header_Set w ''Access-Control-Allow-Origin'' ''*'' s;
          s2 = Header_Set w ''Access-Control-Allow-Methods'' ''GET, POST, PUT, DELETE, OPTIONS'' s1;
          s3 = Header_Set w ''Access-Control-Allow-Headers'' ''Content-Type, Authorization'' s2
      in if Method r = ''OPTIONS'' then Some (WriteHeader w 200 s3) else next w r s3)"

text \<open>
  \<^verbatim>\<open>ChainMiddleware\<close>: the loop \<^verbatim>\<open>for i := len(middlewares) - 1; i >= 0; i--\<close> with the
  body \<^verbatim>\<open>handler = middlewares[i](handler)\<close>.
\<close>

function ChainMiddleware_loop :: "Handler \<Rightarrow> Middleware list \<Rightarrow> int \<Rightarrow> Handler" where
  "ChainMiddleware_loop handler middlewares i =
     (if 0 \<le> i
      then ChainMiddleware_loop ((middlewares ! nat i) handler) middlewares (i - 1)
      else handler)"
  by pat_completeness auto
termination
  by (relation "measure (\<lambda>(handler, middlewares, i). nat (i + 1))") auto

definition ChainMiddleware :: "Handler \<Rightarrow> Middleware list \<Rightarrow> Handler" where
  "ChainMiddleware handler middlewares =
     ChainMiddleware_loop handler middlewares (int (length middlewares) - 1)"

text \<open>
  \<^verbatim>\<open>main\<close>: the list of stages and the handler registered for every path.
  \<^verbatim>\<open>proxyHandler\<close> reaches the backends over the network and is a parameter. The
  rate-limit stage gets the routes of the configuration; its buckets are in the state
  the server starts in, \<^verbatim>\<open>globalLimiter\<close> made when the clock reads \<open>t0\<close> and
  \<^verbatim>\<open>routeLimiters\<close> when it reads \<open>t1\<close>.
\<close>

definition main_middlewares :: "Config \<Rightarrow> Middleware list" where
  "main_middlewares config =
     [AuthMiddleware config,
      RateLimitMiddleware,
      CORSAMiddleware,
      TimeoutMiddleware (3 * Second),
      LogMiddleware]"

definition main_handler :: "(RouteConfig list \<Rightarrow> Handler) \<Rightarrow> Config \<Rightarrow> Handler" where
  "main_handler proxyHandler config =
     ChainMiddleware (proxyHandler (Routes config)) (main_middlewares config)"

definition main_limiters :: "Config \<Rightarrow> Time \<Rightarrow> Time \<Rightarrow> (string \<rightharpoonup> TokenBucket) \<times> TokenBucket" where
  "main_limiters config t0 t1 = (routeLimiters_make (Routes config) t1, globalLimiter_init t0)"

text \<open>
  The state in which the server takes its first request, the clock reading \<open>now\<close>:
  a response with nothing written, no wrapper, an empty log, the buckets as made.
\<close>

definition main_state :: "Config \<Rightarrow> Time \<Rightarrow> Time \<Rightarrow> Time \<Rightarrow> State" where
  "main_state config t0 t1 now =
     \<lparr>clock = now,
      response = \<lparr>resp_header = Map.empty, resp_status = None, resp_body = []\<rparr>,
      StatusCode = (\<lambda>a. 0),
      wrappers = 0,
      logged = [],
      routeLimiters = fst (main_limiters config t0 t1),
      globalLimiter = snd (main_limiters config t0 t1)\<rparr>"

section \<open>Predicates of the properties\<close>

text \<open>The bounds that the data model gives the token count: \<open>0 \<le> tokens \<le> capacity\<close>.\<close>

definition bucket_inv :: "TokenBucket \<Rightarrow> bool" where
  "bucket_inv tb = (0 \<le>s Tokens tb \<and> Tokens tb \<le>s Cap tb)"

text \<open>
  A bucket whose refill cannot leave the 64 bits: the interval is one second, and the
  capacity plus the most tokens that a duration can yield (a duration is below
  9223372037 seconds) is at most the largest \<^verbatim>\<open>int\<close>.
\<close>

definition no_overflow :: "TokenBucket \<Rightarrow> bool" where
  "no_overflow tb =
     (interval tb = Second \<and>
      sint (Cap tb) + 9223372037 * \<bar>sint (Rate tb)\<bar> \<le> 9223372036854775807)"

text \<open>
  The refill amount in the words of the specification: the floor of the elapsed
  seconds times the rate, the elapsed time being \<open>now - LastCheck\<close> in nanoseconds and
  the arithmetic that of the rational numbers.
\<close>

definition spec_newTokens :: "TokenBucket \<Rightarrow> Time \<Rightarrow> int" where
  "spec_newTokens tb now =
     \<lfloor>of_int (now - LastCheck tb) / 1000000000 * of_int (sint (Rate tb)) :: rat\<rfloor>"

section \<open>Properties\<close>

declare ChainMiddleware_loop.simps [simp del]

subsection \<open>Rounding to binary64\<close>

text \<open>
  One rounding moves a number by at most half a unit in the last place, which is at
  most the fraction \<open>2\<^sup>-\<^sup>5\<^sup>3\<close> of the number; it keeps the sign, and it leaves a number
  that has a significand of 53 bits as it is.
\<close>

lemma round_half_even_error: "\<bar>of_int (round_half_even t) - t\<bar> \<le> 1 / 2"
proof -
  have "of_int \<lfloor>t\<rfloor> \<le> t" "t < of_int \<lfloor>t\<rfloor> + 1" by linarith+
  then show ?thesis
    by (auto simp: round_half_even_def Let_def abs_le_iff)
qed

lemma round_half_even_of_int [simp]: "round_half_even (of_int n) = n"
  by (simp add: round_half_even_def)

lemma round_half_even_nonneg: "0 \<le> t \<Longrightarrow> 0 \<le> round_half_even t"
  by (auto simp: round_half_even_def Let_def)

lemma round_half_even_nonpos: "t \<le> 0 \<Longrightarrow> round_half_even t \<le> 0"
proof -
  assume t: "t \<le> 0"
  have f: "of_int \<lfloor>t\<rfloor> \<le> t" "t < of_int \<lfloor>t\<rfloor> + 1" by linarith+
  show ?thesis
  proof (cases "t = of_int \<lfloor>t\<rfloor>")
    case True
    then have "round_half_even t = \<lfloor>t\<rfloor>" by (metis round_half_even_of_int)
    with t show ?thesis by simp
  next
    case False
    with f have "of_int \<lfloor>t\<rfloor> < t" by linarith
    with t have "\<lfloor>t\<rfloor> < 0" by linarith
    then have "\<lfloor>t\<rfloor> + 1 \<le> 0" by linarith
    then show ?thesis by (auto simp: round_half_even_def Let_def)
  qed
qed

lemma bitlen_bounds_rat:
  assumes "0 < n"
  shows "2 powi (bitlen n - 1) \<le> (of_int n :: rat)" and "(of_int n :: rat) + 1 \<le> 2 powi (bitlen n)"
proof -
  from assms have b1: "1 \<le> bitlen n"
    using bitlen_eq_zero_iff [of n] bitlen_nonneg [of n] by linarith
  from bitlen_bounds [OF assms] have lo: "2 ^ nat (bitlen n - 1) \<le> n" and hi: "n + 1 \<le> 2 ^ nat (bitlen n)"
    by simp_all
  have "(2::rat) powi (bitlen n - 1) = of_int (2 ^ nat (bitlen n - 1))"
    using b1 by (simp add: power_int_nonneg_exp)
  also have "\<dots> \<le> of_int n" using lo by (simp only: of_int_le_iff)
  finally show "2 powi (bitlen n - 1) \<le> (of_int n :: rat)" .
  have "(of_int n :: rat) + 1 = of_int (n + 1)" by simp
  also have "\<dots> \<le> of_int (2 ^ nat (bitlen n))" using hi by (simp only: of_int_le_iff)
  also have "\<dots> = (2::rat) powi (bitlen n)"
    using b1 by (simp add: power_int_nonneg_exp)
  finally show "(of_int n :: rat) + 1 \<le> 2 powi (bitlen n)" .
qed

lemma binade_bounds:
  assumes "x \<noteq> 0"
  shows "2 powi binade x \<le> \<bar>x\<bar>" and "\<bar>x\<bar> < 2 powi (binade x + 1)"
proof -
  have "2 powi binade x \<le> \<bar>x\<bar> \<and> \<bar>x\<bar> < 2 powi (binade x + 1)"
  proof (cases "1 \<le> \<bar>x\<bar>")
    case True
    define n where "n = \<lfloor>\<bar>x\<bar>\<rfloor>"
    have nx: "of_int n \<le> \<bar>x\<bar>" "\<bar>x\<bar> < of_int n + 1" unfolding n_def by linarith+
    with True have n: "0 < n" by linarith
    have e: "binade x = bitlen n - 1" using True by (simp add: binade_def n_def)
    from bitlen_bounds_rat [OF n] nx show ?thesis
      unfolding e by simp
  next
    case False
    define y where "y = 1 / \<bar>x\<bar>"
    define m where "m = \<lceil>y\<rceil> - 1"
    from False assms have x: "0 < \<bar>x\<bar>" "\<bar>x\<bar> < 1" by simp_all
    then have y: "1 < y" unfolding y_def by (simp add: field_simps)
    have my: "of_int m < y" "y \<le> of_int m + 1" unfolding m_def by linarith+
    with y have m: "0 < m" by linarith
    have e: "binade x = - bitlen m" using False by (simp add: binade_def m_def y_def)
    from bitlen_bounds_rat [OF m] my
    have lo: "2 powi (bitlen m - 1) < y" and hi: "y \<le> 2 powi (bitlen m)" by linarith+
    have xy: "\<bar>x\<bar> = 1 / y" unfolding y_def by simp
    have y0: "0 < y" using y by linarith
    have p0: "0 < (2::rat) powi (bitlen m)" "0 < (2::rat) powi (bitlen m - 1)" by simp_all
    from hi y0 p0 have "1 / 2 powi (bitlen m) \<le> 1 / y"
      by (simp add: frac_le)
    then have l: "2 powi (- bitlen m) \<le> \<bar>x\<bar>"
      by (simp only: xy power_int_minus_divide)
    from lo y0 p0 have "1 / y < 1 / 2 powi (bitlen m - 1)"
      by (simp add: frac_less2)
    moreover have "(2::rat) powi (- bitlen m + 1) = 1 / 2 powi (bitlen m - 1)"
      using power_int_minus_divide [of "2::rat" "bitlen m - 1"] by simp
    ultimately have "\<bar>x\<bar> < 2 powi (- bitlen m + 1)"
      by (simp only: xy)
    with l show ?thesis unfolding e by simp
  qed
  then show "2 powi binade x \<le> \<bar>x\<bar>" and "\<bar>x\<bar> < 2 powi (binade x + 1)" by simp_all
qed

lemma binade_unique:
  assumes lo: "2 powi e \<le> \<bar>x\<bar>" and hi: "\<bar>x\<bar> < 2 powi (e + 1)"
  shows "binade x = e"
proof -
  have p: "0 < (2::rat) powi e" by simp
  with lo have "0 < \<bar>x\<bar>" by linarith
  then have x: "x \<noteq> 0" by simp
  from binade_bounds [OF x] have b: "2 powi binade x \<le> \<bar>x\<bar>" "\<bar>x\<bar> < 2 powi (binade x + 1)" .
  have "\<not> e + 1 \<le> binade x"
  proof
    assume "e + 1 \<le> binade x"
    then have "(2::rat) powi (e + 1) \<le> 2 powi binade x" by (intro power_int_increasing) simp_all
    with b(1) hi show False by linarith
  qed
  moreover have "\<not> binade x + 1 \<le> e"
  proof
    assume "binade x + 1 \<le> e"
    then have "(2::rat) powi (binade x + 1) \<le> 2 powi e" by (intro power_int_increasing) simp_all
    with b(2) lo show False by linarith
  qed
  ultimately show ?thesis by linarith
qed

lemma ulp_pos: "0 < (2::rat) powi k"
  by simp

lemma float_round_0 [simp]: "float_round 0 = 0"
  by (simp add: float_round_def)

lemma float_round_error: "\<bar>float_round x - x\<bar> \<le> \<bar>x\<bar> / 2 ^ 53"
proof (cases "x = 0")
  case True
  then show ?thesis by simp
next
  case False
  define u :: rat where "u = 2 powi (binade x - 52)"
  have u: "0 < u" unfolding u_def by simp
  have fr: "float_round x = of_int (round_half_even (x / u)) * u"
    using False by (simp add: float_round_def u_def Let_def)
  have "float_round x - x = (of_int (round_half_even (x / u)) - x / u) * u"
    using u by (simp add: fr field_simps)
  then have "\<bar>float_round x - x\<bar> = \<bar>of_int (round_half_even (x / u)) - x / u\<bar> * u"
    using u by (simp add: abs_mult)
  also have "\<dots> \<le> 1 / 2 * u"
    using round_half_even_error [of "x / u"] u by (intro mult_right_mono) simp_all
  also have "\<dots> = 2 powi binade x / 2 ^ 53"
  proof -
    have "(2::rat) powi (binade x - 52) = 2 powi binade x / 2 powi 52"
      by (simp add: power_int_diff)
    then show ?thesis by (simp add: u_def)
  qed
  also have "\<dots> \<le> \<bar>x\<bar> / 2 ^ 53"
    using binade_bounds(1) [OF False] by (simp add: divide_right_mono)
  finally show ?thesis .
qed

lemma float_round_abs: "\<bar>float_round x\<bar> \<le> \<bar>x\<bar> * (1 + 1 / 2 ^ 53)"
proof -
  have "\<bar>float_round x\<bar> \<le> \<bar>x\<bar> + \<bar>float_round x - x\<bar>" by linarith
  also have "\<dots> \<le> \<bar>x\<bar> + \<bar>x\<bar> / 2 ^ 53" using float_round_error [of x] by linarith
  finally show ?thesis by (simp add: algebra_simps)
qed

lemma float_round_nonneg: "0 \<le> x \<Longrightarrow> 0 \<le> float_round x"
  by (simp add: float_round_def Let_def round_half_even_nonneg)

lemma float_round_nonpos: "x \<le> 0 \<Longrightarrow> float_round x \<le> 0"
  by (simp add: float_round_def Let_def round_half_even_nonpos mult_nonpos_nonneg divide_nonpos_pos)

lemma round_half_even_bounds: "\<lfloor>t\<rfloor> \<le> round_half_even t \<and> round_half_even t \<le> \<lceil>t\<rceil>"
proof -
  have "t \<noteq> of_int \<lfloor>t\<rfloor> \<Longrightarrow> \<lfloor>t\<rfloor> + 1 \<le> \<lceil>t\<rceil>"
    by (metis ceiling_altdef order_refl)
  moreover have "\<lfloor>t\<rfloor> \<le> \<lceil>t\<rceil>" by linarith
  ultimately show ?thesis
    by (auto simp: round_half_even_def Let_def)
qed

lemma round_half_even_abs_le:
  assumes "\<bar>t\<bar> \<le> of_int N"
  shows "\<bar>round_half_even t\<bar> \<le> N"
proof -
  from assms have "t \<le> of_int N" "of_int (- N) \<le> t" by (simp_all add: abs_le_iff)
  then have "\<lceil>t\<rceil> \<le> N" "- N \<le> \<lfloor>t\<rfloor>" by (simp_all only: ceiling_le_iff le_floor_iff)
  with round_half_even_bounds [of t] show ?thesis by linarith
qed

lemma float_round_representable:
  assumes m: "\<bar>m\<bar> \<le> 2 ^ 53" and x: "x = of_int m * 2 powi k"
  shows "float_round x = x"
proof (cases "x = 0")
  case True
  then show ?thesis by simp
next
  case False
  define e where "e = binade x"
  define u :: rat where "u = 2 powi (e - 52)"
  have u: "0 < u" unfolding u_def by simp
  have fr: "float_round x = of_int (round_half_even (x / u)) * u"
    using False by (simp add: float_round_def u_def e_def Let_def)
  have ax: "\<bar>x\<bar> = of_int \<bar>m\<bar> * 2 powi k"
    by (simp add: x abs_mult)
  from binade_bounds(1) [OF False] have lo: "2 powi e \<le> \<bar>x\<bar>" by (simp add: e_def)
  have "\<bar>x\<bar> \<le> 2 ^ 53 * 2 powi k"
  proof -
    from m have "(of_int \<bar>m\<bar> :: rat) \<le> of_int (2 ^ 53)" by (simp only: of_int_le_iff)
    then have "(of_int \<bar>m\<bar> :: rat) * 2 powi k \<le> of_int (2 ^ 53) * 2 powi k"
      by (intro mult_right_mono) simp_all
    then show ?thesis by (simp add: ax)
  qed
  also have "(2::rat) ^ 53 * 2 powi k = 2 powi (k + 53)"
    using power_int_add [of "2::rat" k 53] by simp
  finally have hi: "\<bar>x\<bar> \<le> 2 powi (k + 53)" .
  have ek: "e \<le> k + 53"
  proof (rule ccontr)
    assume "\<not> e \<le> k + 53"
    then have "k + 53 < e" by simp
    then have "(2::rat) powi (k + 53) < 2 powi e" by (intro power_int_strict_increasing) simp_all
    with lo hi show False by linarith
  qed
  have "\<exists>j. x / u = of_int j"
  proof (cases "e \<le> k + 52")
    case True
    then have "0 \<le> k - (e - 52)" by simp
    then obtain n where n: "k - (e - 52) = int n" using nonneg_int_cases by blast
    have "x / u = of_int m * (2 powi k / 2 powi (e - 52))" by (simp add: x u_def)
    also have "2 powi k / 2 powi (e - 52) = (2::rat) powi (k - (e - 52))"
      by (rule power_int_diff [symmetric]) simp
    also have "\<dots> = of_int (2 ^ n)" by (simp add: n)
    finally have "x / u = of_int (m * 2 ^ n)" by simp
    then show ?thesis by blast
  next
    case False
    with ek have e: "e = k + 53" by linarith
    from lo hi e have "\<bar>x\<bar> = 2 powi (k + 53)" by simp
    moreover have "(2::rat) powi ((k + 53) - (k + 1)) = 2 powi (k + 53) / 2 powi (k + 1)"
      by (rule power_int_diff) simp
    moreover have "(k + 53) - (k + 1) = 52" "k + 53 - 52 = k + 1" by simp_all
    ultimately have "\<bar>x\<bar> / u = 2 powi 52"
      by (simp only: u_def e)
    then have "\<bar>x\<bar> / u = 2 ^ 52" by simp
    then have "\<bar>x / u\<bar> = of_int (2 ^ 52)" using u by (simp add: abs_divide)
    then have "x / u = of_int (2 ^ 52) \<or> x / u = of_int (- (2 ^ 52))"
      by (simp only: abs_eq_iff' of_int_minus)
    then show ?thesis by blast
  qed
  then obtain j where j: "x / u = of_int j" by blast
  then have "float_round x = of_int j * u" by (simp add: fr)
  also have "\<dots> = x" using j u by (simp add: field_simps)
  finally show ?thesis .
qed

lemma float_round_of_int: "\<bar>n\<bar> \<le> 2 ^ 53 \<Longrightarrow> float_round (of_int n) = of_int n"
  using float_round_representable [of n "of_int n" 0] by simp

lemma float_round_idem: "float_round (float_round x) = float_round x"
proof (cases "x = 0")
  case True
  then show ?thesis by simp
next
  case False
  define u :: rat where "u = 2 powi (binade x - 52)"
  have u: "0 < u" unfolding u_def by simp
  have fr: "float_round x = of_int (round_half_even (x / u)) * 2 powi (binade x - 52)"
    using False by (simp add: float_round_def u_def Let_def)
  have "\<bar>x\<bar> < 2 powi (binade x + 1)" using binade_bounds(2) [OF False] .
  also have "(2::rat) powi (binade x + 1) = 2 ^ 53 * u"
  proof -
    have "53 + (binade x - 52) = binade x + 1" by simp
    moreover have "(2::rat) powi (53 + (binade x - 52)) = 2 powi 53 * 2 powi (binade x - 52)"
      by (rule power_int_add) simp
    ultimately have "(2::rat) powi (binade x + 1) = 2 powi 53 * 2 powi (binade x - 52)"
      by (simp only:)
    then show ?thesis by (simp add: u_def)
  qed
  finally have "\<bar>x\<bar> / u < 2 ^ 53" using u by (simp add: field_simps)
  then have "\<bar>x / u\<bar> \<le> of_int (2 ^ 53)" using u by (simp add: abs_divide)
  then have "\<bar>round_half_even (x / u)\<bar> \<le> 2 ^ 53" by (rule round_half_even_abs_le)
  from float_round_representable [OF this fr] show ?thesis .
qed

subsection \<open>Arithmetic of the 64-bit integers and of durations\<close>

lemma min64_sint: "sint (min64 a b) = min (sint a) (sint b)"
  by (simp add: min64_def word_sless_alt min_def)

lemma sint64_range: "- 9223372036854775808 \<le> sint (w :: int64) \<and> sint w \<le> 9223372036854775807"
  using sint_ge [of w] sint_lt [of w] by simp

lemma sint_word_of_int64:
  "- 9223372036854775808 \<le> n \<Longrightarrow> n \<le> 9223372036854775807 \<Longrightarrow> sint (word_of_int n :: int64) = n"
  by (simp add: sint_sbintrunc' signed_take_bit_int_eq_self)

lemma sint_add64:
  "- 9223372036854775808 \<le> sint a + sint b \<Longrightarrow> sint a + sint b \<le> 9223372036854775807 \<Longrightarrow>
   sint (a + b :: int64) = sint a + sint b"
  by (simp add: sint_word_add signed_take_bit_int_eq_self)

lemma sint_pred64: "0 < sint a \<Longrightarrow> sint (a - 1 :: int64) = sint a - 1"
  using sint64_range [of a] by (simp add: sint_word_diff signed_take_bit_int_eq_self)

lemma Time_Sub_same: "Time_Sub t t = 0"
  by (simp add: Time_Sub_def maxDuration_def minDuration_def)

lemma Time_Sub_sint:
  "minDuration \<le> t - u \<Longrightarrow> t - u \<le> maxDuration \<Longrightarrow> sint (Time_Sub t u) = t - u"
  by (simp add: Time_Sub_def Let_def maxDuration_def minDuration_def sint_word_of_int64 del: of_int_diff)

lemma Time_Sub_nonneg: "u \<le> t \<Longrightarrow> 0 \<le> sint (Time_Sub t u)"
  by (simp add: Time_Sub_def Let_def maxDuration_def minDuration_def sint_word_of_int64 del: of_int_diff)

lemma float_to_int_0: "float_to_int 0 = Some 0"
  by (simp add: float_to_int_def trunc0_def)

lemma trunc0_le: "x \<le> of_int m \<Longrightarrow> trunc0 x \<le> m"
  by (simp add: trunc0_def floor_le_iff ceiling_le_iff)

lemma trunc0_ge: "of_int m \<le> x \<Longrightarrow> m \<le> trunc0 x"
  by (simp add: trunc0_def le_floor_iff le_ceiling_iff)

lemma trunc0_nonneg: "0 \<le> x \<Longrightarrow> trunc0 x = \<lfloor>x\<rfloor>"
  by (simp add: trunc0_def)

lemma sdiv_smod_abs:
  assumes "0 < l"
  shows "\<bar>k sdiv l\<bar> * l + \<bar>k smod l\<bar> = \<bar>k :: int\<bar>"
proof -
  have n: "0 \<le> \<bar>k\<bar> div l" "0 \<le> \<bar>k\<bar> mod l"
    using assms by (simp_all add: pos_imp_zdiv_nonneg_iff)
  have d: "\<bar>k sdiv l\<bar> = \<bar>k\<bar> div l"
    using assms n by (cases "k = 0") (simp_all add: signed_divide_int_def abs_mult abs_sgn_eq)
  have m: "\<bar>k smod l\<bar> = \<bar>k\<bar> mod l"
    using assms n by (cases "k = 0") (simp_all add: signed_modulo_int_def abs_mult abs_sgn_eq)
  show ?thesis by (simp only: d m div_mult_mod_eq)
qed

lemma sdiv_smod_nonneg:
  "0 \<le> (k::int) \<Longrightarrow> 0 < l \<Longrightarrow> 0 \<le> k sdiv l \<and> 0 \<le> k smod l"
  by (simp add: signed_divide_int_def signed_modulo_int_def sgn_if pos_imp_zdiv_nonneg_iff)

lemma float64_0 [simp]: "float64 0 = 0"
  by (simp add: float64_def)

lemma float64_1 [simp]: "float64 1 = 1"
  using float_round_of_int [of 1] by (simp add: float64_def)

lemma Seconds_0 [simp]: "Seconds 0 = 0"
  by (simp add: Seconds_def float_add_def float_quo_def)

lemma Seconds_Second: "Seconds Second = 1"
  using float_round_of_int [of 1]
  by (simp add: Seconds_def Second_def float_add_def float_quo_def)

text \<open>The relative error of one rounding is at most \<open>2\<^sup>-\<^sup>5\<^sup>3\<close>; three roundings make a duration.\<close>

lemma Seconds_abs:
  "\<bar>Seconds d\<bar> \<le> \<bar>of_int (sint d)\<bar> / 1000000000 * (1 + 1 / 2 ^ 53) ^ 3"
proof -
  define U :: rat where "U = 1 + 1 / 2 ^ 53"
  have U: "1 \<le> U" "0 \<le> U" unfolding U_def by simp_all
  have fr: "\<bar>float_round x\<bar> \<le> \<bar>x\<bar> * U" for x
    using float_round_abs [of x] by (simp add: U_def)
  define a where "a = sint d sdiv 1000000000"
  define b where "b = sint d smod 1000000000"
  have ab: "\<bar>a\<bar> * 1000000000 + \<bar>b\<bar> = \<bar>sint d\<bar>"
    unfolding a_def b_def by (rule sdiv_smod_abs) simp
  define q where "q = float_round (float_round (of_int b) / 1000000000)"
  have S: "Seconds d = float_round (float_round (of_int a) + q)"
    by (simp add: Seconds_def Second_def Let_def float_add_def float_quo_def float64_def a_def b_def q_def)
  have fa: "\<bar>float_round (of_int a)\<bar> \<le> \<bar>of_int a\<bar> * U" by (rule fr)
  have "\<bar>float_round (of_int b)\<bar> \<le> \<bar>of_int b\<bar> * U" by (rule fr)
  then have "\<bar>float_round (of_int b) / 1000000000\<bar> \<le> \<bar>of_int b\<bar> * U / 1000000000"
    by (simp add: divide_right_mono)
  then have "\<bar>float_round (of_int b) / 1000000000\<bar> * U \<le> \<bar>of_int b\<bar> * U / 1000000000 * U"
    using U by (intro mult_right_mono)
  moreover have "\<bar>q\<bar> \<le> \<bar>float_round (of_int b) / 1000000000\<bar> * U"
    unfolding q_def by (rule fr)
  ultimately have "\<bar>q\<bar> \<le> \<bar>of_int b\<bar> * U / 1000000000 * U" by linarith
  then have fq: "\<bar>q\<bar> \<le> \<bar>of_int b\<bar> / 1000000000 * U * U" by simp
  have "\<bar>of_int a\<bar> * U \<le> \<bar>of_int a :: rat\<bar> * U * U"
    using U mult_left_mono [of 1 U "\<bar>of_int a\<bar> * U"] by simp
  with fa have fa': "\<bar>float_round (of_int a)\<bar> \<le> \<bar>of_int a\<bar> * U * U" by linarith
  have "\<bar>Seconds d\<bar> \<le> \<bar>float_round (of_int a) + q\<bar> * U"
    unfolding S by (rule fr)
  also have "\<dots> \<le> (\<bar>float_round (of_int a)\<bar> + \<bar>q\<bar>) * U"
    using U by (intro mult_right_mono) simp_all
  also have "\<dots> \<le> (\<bar>of_int a\<bar> * U * U + \<bar>of_int b\<bar> / 1000000000 * U * U) * U"
    using fa' fq U by (intro mult_right_mono) simp_all
  also have "\<dots> = (\<bar>of_int a\<bar> * 1000000000 + \<bar>of_int b\<bar>) / 1000000000 * U ^ 3"
    by (simp add: field_simps power3_eq_cube)
  also have "\<bar>of_int a\<bar> * 1000000000 + \<bar>of_int b\<bar> = (of_int (\<bar>a\<bar> * 1000000000 + \<bar>b\<bar>) :: rat)"
    by simp
  also have "\<dots> = \<bar>of_int (sint d)\<bar>"
    by (simp only: ab of_int_abs)
  finally show ?thesis by (simp only: U_def)
qed

lemma Seconds_nonneg: "0 \<le> sint d \<Longrightarrow> 0 \<le> Seconds d"
proof -
  assume d: "0 \<le> sint d"
  from sdiv_smod_nonneg [OF d, of 1000000000]
  have "0 \<le> sint d sdiv 1000000000" "0 \<le> sint d smod 1000000000" by simp_all
  then have "0 \<le> float64 (sint d sdiv 1000000000)"
    "0 \<le> float_quo (float64 (sint d smod 1000000000)) 1000000000"
    by (simp_all add: float64_def float_quo_def float_round_nonneg)
  then show ?thesis
    by (simp add: Seconds_def Second_def Let_def float_add_def float_round_nonneg)
qed

lemma newTokens_Second:
  assumes "interval tb = Second"
  shows "newTokens tb now =
     float_to_int (float_mul (Seconds (Time_Sub now (LastCheck tb))) (float64 (sint (Rate tb))))"
  using assms
  by (simp add: newTokens_def Let_def Seconds_Second float_div_def float_quo_def float_mul_def
      float_round_idem)

lemma rounding_slack:
  "(9223372036854775808 / 1000000000) * (1 + 1 / 2 ^ 53) ^ 5 \<le> (9223372037 :: rat)"
  by (simp add: power_numeral_reduce field_simps)

lemma product_bound:
  "\<bar>float_mul (Seconds d) (float64 r)\<bar> \<le> of_int (9223372037 * \<bar>r\<bar>)"
proof -
  define U :: rat where "U = 1 + 1 / 2 ^ 53"
  have U: "1 \<le> U" "0 \<le> U" unfolding U_def by simp_all
  have fr: "\<bar>float_round x\<bar> \<le> \<bar>x\<bar> * U" for x
    using float_round_abs [of x] by (simp add: U_def)
  have "- 9223372036854775808 \<le> sint d" "sint d \<le> 9223372036854775807"
    using sint64_range [of d] by simp_all
  then have "\<bar>sint d\<bar> \<le> 9223372036854775808" by linarith
  then have "(of_int \<bar>sint d\<bar> :: rat) \<le> of_int 9223372036854775808" by (simp only: of_int_le_iff)
  then have d: "\<bar>rat_of_int (sint d)\<bar> \<le> 9223372036854775808" by (simp del: of_int_sint)
  have "\<bar>Seconds d\<bar> \<le> \<bar>rat_of_int (sint d)\<bar> / 1000000000 * U ^ 3"
    using Seconds_abs [of d] by (simp only: U_def)
  also have "\<dots> \<le> 9223372036854775808 / 1000000000 * U ^ 3"
    using d U by (intro mult_right_mono divide_right_mono) simp_all
  finally have S: "\<bar>Seconds d\<bar> \<le> 9223372036854775808 / 1000000000 * U ^ 3" .
  have R: "\<bar>float64 r\<bar> \<le> \<bar>of_int r\<bar> * U" unfolding float64_def by (rule fr)
  have "\<bar>float_mul (Seconds d) (float64 r)\<bar> \<le> \<bar>Seconds d * float64 r\<bar> * U"
    unfolding float_mul_def by (rule fr)
  also have "\<dots> = \<bar>Seconds d\<bar> * \<bar>float64 r\<bar> * U" by (simp only: abs_mult)
  also have "\<dots> \<le> (9223372036854775808 / 1000000000 * U ^ 3) * (\<bar>of_int r\<bar> * U) * U"
    using S R U by (intro mult_right_mono mult_mono) simp_all
  also have "\<dots> = (9223372036854775808 / 1000000000 * U ^ 5) * \<bar>of_int r\<bar>"
    by (simp add: power_numeral_reduce algebra_simps)
  also have "\<dots> \<le> 9223372037 * \<bar>of_int r\<bar>"
    using rounding_slack by (intro mult_right_mono) (simp_all only: U_def abs_ge_zero)
  also have "\<dots> = of_int (9223372037 * \<bar>r\<bar>)" by simp
  finally show ?thesis .
qed

lemma newTokens_defined:
  assumes i: "interval tb = Second"
    and r: "9223372037 * \<bar>sint (Rate tb)\<bar> \<le> 9223372036854775807"
  shows "\<exists>a. newTokens tb now = Some a \<and> \<bar>sint a\<bar> \<le> 9223372037 * \<bar>sint (Rate tb)\<bar>"
proof -
  let ?q = "float_mul (Seconds (Time_Sub now (LastCheck tb))) (float64 (sint (Rate tb)))"
  let ?B = "9223372037 * \<bar>sint (Rate tb)\<bar>"
  have q: "\<bar>?q\<bar> \<le> of_int ?B" by (rule product_bound)
  then have "?q \<le> of_int ?B" "of_int (- ?B) \<le> ?q"
    by (simp_all only: abs_le_iff of_int_minus) linarith+
  then have n: "trunc0 ?q \<le> ?B" "- ?B \<le> trunc0 ?q"
    by (auto intro: trunc0_le trunc0_ge)
  with r have rng: "- 9223372036854775808 \<le> trunc0 ?q" "trunc0 ?q \<le> 9223372036854775807"
    by linarith+
  have "newTokens tb now = Some (word_of_int (trunc0 ?q))"
    using rng by (simp add: newTokens_Second [OF i] float_to_int_def Let_def)
  moreover have "sint (word_of_int (trunc0 ?q) :: int64) = trunc0 ?q"
    using rng by (rule sint_word_of_int64)
  ultimately show ?thesis using n by (simp add: abs_le_iff)
qed

subsection \<open>A fresh bucket admits exactly its capacity\<close>

lemma newTokens_no_elapsed:
  "interval tb = Second \<Longrightarrow> newTokens tb (LastCheck tb) = Some 0"
  by (simp add: newTokens_Second Time_Sub_same float_mul_def float_to_int_0)

lemma refill_0: "refill tb now 0 = tb"
  by (simp add: refill_def)

lemma Allow_no_elapsed:
  "interval tb = Second \<Longrightarrow> Allow tb (LastCheck tb) = Some (acquire tb)"
  by (simp add: Allow_def newTokens_no_elapsed refill_0)

text \<open>
  A bucket that holds \<open>n\<close> tokens and is asked \<open>n + 1\<close> times at the instant of its
  last refill says yes \<open>n\<close> times and then no. Induction on \<open>n\<close>, the bucket
  generalised.
\<close>

lemma Allows_drain:
  "interval tb = Second \<Longrightarrow> LastCheck tb = t \<Longrightarrow> nat (sint (Tokens tb)) = n \<Longrightarrow>
   map_option (map fst) (Allows tb (replicate (Suc n) t)) = Some (replicate n True @ [False])"
proof (induction n arbitrary: tb)
  case 0
  then have "\<not> 0 <s Tokens tb" by (simp add: word_sless_alt)
  with 0 Allow_no_elapsed [of tb] show ?case by (simp add: acquire_def)
next
  case (Suc n)
  then have pos: "0 < sint (Tokens tb)" by linarith
  let ?tb' = "tb\<lparr>Tokens := Tokens tb - 1\<rparr>"
  have a: "Allow tb t = Some (True, ?tb')"
    using Suc.prems pos Allow_no_elapsed [of tb] by (simp add: acquire_def word_sless_alt)
  have "nat (sint (Tokens ?tb')) = n"
    using Suc.prems pos by (simp add: sint_pred64)
  with Suc.IH [of ?tb'] Suc.prems
  have "map_option (map fst) (Allows ?tb' (replicate (Suc n) t)) = Some (replicate n True @ [False])"
    by simp
  with a show ?case
    by (auto split: option.splits)
qed

text \<open>
  Claim C1. A bucket made by \<^verbatim>\<open>NewTokenBucket(C, R)\<close> at the instant \<open>t0\<close> and asked
  \<open>C + 1\<close> times with the clock still at \<open>t0\<close> answers \<^verbatim>\<open>true\<close> to each of the first
  \<open>C\<close> calls and \<^verbatim>\<open>false\<close> to the next one. Every call returns. The rate plays no
  part, so the statement holds for every \<open>R\<close>.
\<close>

theorem fresh_bucket_admits_capacity:
  "0 <s C \<Longrightarrow> 0 <s R \<Longrightarrow>
   map_option (map fst) (Allows (NewTokenBucket C R t0) (replicate (nat (sint C) + 1) t0))
   = Some (replicate (nat (sint C)) True @ [False])"
  using Allows_drain [of "NewTokenBucket C R t0" t0 "nat (sint C)"]
  by (simp add: NewTokenBucket_def)

theorem fresh_bucket_admits_capacity_witness:
  "0 <s (3 :: int64) \<and> 0 <s (2 :: int64) \<and>
   map_option (map fst) (Allows (NewTokenBucket 3 2 0) [0, 0, 0, 0]) = Some [True, True, True, False]"
proof -
  have c: "0 <s (3 :: int64)" and r: "0 <s (2 :: int64)"
    by (simp_all add: word_sless_alt)
  have n: "nat (sint (3 :: int64)) = 3" by simp
  have l: "replicate (nat (sint (3 :: int64)) + 1) (0 :: int) = [0, 0, 0, 0]"
    by (simp add: n numeral_eq_Suc)
  have l': "replicate (nat (sint (3 :: int64))) True = [True, True, True]"
    by (simp add: n numeral_eq_Suc)
  from fresh_bucket_admits_capacity [OF c r, of 0] c r show ?thesis
    by (simp only: l l' append_Cons append_Nil simp_thms)
qed


text \<open>
  More generally, \<open>N\<close> consecutive calls at the instant of the last refill, one after
  the other, admit as many as there are tokens and no more: the first \<open>min N T\<close> calls
  say yes and the others no, for a bucket that holds \<open>T\<close> tokens.
\<close>

lemma Allows_same_instant:
  "interval tb = Second \<Longrightarrow> LastCheck tb = t \<Longrightarrow>
   map_option (map fst) (Allows tb (replicate N t))
   = Some (replicate (min N (nat (sint (Tokens tb)))) True @ replicate (N - nat (sint (Tokens tb))) False)"
proof (induction N arbitrary: tb)
  case 0
  show ?case by simp
next
  case (Suc N)
  show ?case
  proof (cases "0 <s Tokens tb")
    case False
    then have z: "nat (sint (Tokens tb)) = 0" by (simp add: word_sless_alt)
    from False Suc.prems Allow_no_elapsed [of tb] have a: "Allow tb t = Some (False, tb)"
      by (simp add: acquire_def)
    from Suc.IH [OF Suc.prems] z
    have "map_option (map fst) (Allows tb (replicate N t)) = Some (replicate N False)" by simp
    with a z show ?thesis by (auto split: option.splits)
  next
    case True
    then have pos: "0 < sint (Tokens tb)" by (simp add: word_sless_alt)
    let ?tb' = "tb\<lparr>Tokens := Tokens tb - 1\<rparr>"
    from True Suc.prems Allow_no_elapsed [of tb] have a: "Allow tb t = Some (True, ?tb')"
      by (simp add: acquire_def)
    have n: "nat (sint (Tokens ?tb')) = nat (sint (Tokens tb)) - 1"
      using pos by (simp add: sint_pred64)
    from pos obtain k where k: "nat (sint (Tokens tb)) = Suc k"
      by (metis Suc_pred' zero_less_nat_eq)
    from Suc.IH [of ?tb'] Suc.prems n k
    have "map_option (map fst) (Allows ?tb' (replicate N t))
        = Some (replicate (min N k) True @ replicate (N - k) False)" by simp
    with a k show ?thesis by (auto split: option.splits)
  qed
qed

subsection \<open>The token count stays within its bounds\<close>

lemma refill_fields:
  "Cap (refill tb now a) = Cap tb" "Rate (refill tb now a) = Rate tb"
  "interval (refill tb now a) = interval tb"
  by (simp_all add: refill_def)

lemma acquire_fields:
  "Cap (snd (acquire tb)) = Cap tb" "Rate (snd (acquire tb)) = Rate tb"
  "interval (snd (acquire tb)) = interval tb" "LastCheck (snd (acquire tb)) = LastCheck tb"
  by (simp_all add: acquire_def)

lemma refill_inv:
  assumes inv: "bucket_inv tb"
    and a: "sint (Cap tb) + sint a \<le> 9223372036854775807"
  shows "bucket_inv (refill tb now a)"
proof (cases "0 <s a")
  case False
  with inv show ?thesis by (simp add: refill_def)
next
  case True
  then have pos: "0 < sint a" by (simp add: word_sless_alt)
  from inv have t: "0 \<le> sint (Tokens tb)" "sint (Tokens tb) \<le> sint (Cap tb)"
    by (simp_all add: bucket_inv_def word_sle_eq)
  have "sint (Tokens tb + a) = sint (Tokens tb) + sint a"
    using t pos a by (intro sint_add64) linarith+
  then have "sint (min64 (Tokens tb + a) (Cap tb)) = min (sint (Tokens tb) + sint a) (sint (Cap tb))"
    by (simp add: min64_sint)
  with t pos True show ?thesis
    by (simp add: refill_def bucket_inv_def word_sle_eq)
qed

lemma acquire_inv: "bucket_inv tb \<Longrightarrow> bucket_inv (snd (acquire tb))"
proof (cases "0 <s Tokens tb")
  case False
  assume "bucket_inv tb"
  with False show ?thesis by (simp add: acquire_def)
next
  case True
  assume inv: "bucket_inv tb"
  from True have pos: "0 < sint (Tokens tb)" by (simp add: word_sless_alt)
  then have "sint (Tokens tb - 1) = sint (Tokens tb) - 1" by (rule sint_pred64)
  with inv pos True show ?thesis
    by (simp add: acquire_def bucket_inv_def word_sle_eq)
qed

lemma Allow_inv:
  assumes inv: "bucket_inv tb" and no: "no_overflow tb"
  shows "\<exists>ok tb'. Allow tb now = Some (ok, tb') \<and> bucket_inv tb' \<and> no_overflow tb' \<and> Cap tb' = Cap tb"
proof -
  from inv have c: "0 \<le> sint (Cap tb)"
    by (simp add: bucket_inv_def word_sle_eq)
  from no have i: "interval tb = Second"
    and b: "sint (Cap tb) + 9223372037 * \<bar>sint (Rate tb)\<bar> \<le> 9223372036854775807"
    by (simp_all add: no_overflow_def)
  from b c have r: "9223372037 * \<bar>sint (Rate tb)\<bar> \<le> 9223372036854775807" by linarith
  from newTokens_defined [OF i r, of now] obtain a
    where a: "newTokens tb now = Some a" "\<bar>sint a\<bar> \<le> 9223372037 * \<bar>sint (Rate tb)\<bar>"
    by blast
  with b have "sint (Cap tb) + sint a \<le> 9223372036854775807" by linarith
  with inv have "bucket_inv (refill tb now a)" by (rule refill_inv)
  then have "bucket_inv (snd (acquire (refill tb now a)))" by (rule acquire_inv)
  moreover have "no_overflow (snd (acquire (refill tb now a)))"
    using no by (simp add: no_overflow_def acquire_fields refill_fields)
  moreover have "Cap (snd (acquire (refill tb now a))) = Cap tb"
    by (simp add: acquire_fields refill_fields)
  moreover have "Allow tb now = Some (fst (acquire (refill tb now a)), snd (acquire (refill tb now a)))"
    using a by (simp add: Allow_def)
  ultimately show ?thesis by blast
qed

lemma Allows_inv:
  "bucket_inv tb \<Longrightarrow> no_overflow tb \<Longrightarrow>
   \<exists>rs. Allows tb ts = Some rs \<and> (\<forall>(ok, tb') \<in> set rs. bucket_inv tb' \<and> Cap tb' = Cap tb)"
proof (induction ts arbitrary: tb)
  case Nil
  show ?case by simp
next
  case (Cons t ts)
  from Allow_inv [OF Cons.prems, of t] obtain ok tb'
    where s: "Allow tb t = Some (ok, tb')" "bucket_inv tb'" "no_overflow tb'" "Cap tb' = Cap tb"
    by blast
  from Cons.IH [OF s(2,3)] obtain rs
    where rs: "Allows tb' ts = Some rs" "\<forall>(ok, b) \<in> set rs. bucket_inv b \<and> Cap b = Cap tb'"
    by blast
  with s show ?case by auto
qed

text \<open>
  Claim C2, as it is stated, fails. A bucket of the largest capacity and rate 1 is
  within its bounds when it is made; one second later the refill adds 1 to the
  largest \<^verbatim>\<open>int\<close>, the sum wraps around to the smallest one, \<^verbatim>\<open>min\<close> keeps it, and the
  call answers \<^verbatim>\<open>false\<close> with a negative token count.
\<close>

theorem token_bounds_counterexample:
  "0 <s (9223372036854775807 :: int64) \<and>
   bucket_inv (NewTokenBucket 9223372036854775807 1 0) \<and>
   (\<exists>tb. Allows (NewTokenBucket 9223372036854775807 1 0) [1000000000] = Some [(False, tb)]
      \<and> Tokens tb <s 0 \<and> \<not> bucket_inv tb)"
proof -
  have a: "Allow (NewTokenBucket 9223372036854775807 1 0) 1000000000
      = Some (False, \<lparr>Cap = 9223372036854775807, Rate = 1, interval = Second,
                       Tokens = - 9223372036854775808, LastCheck = 1000000000\<rparr>)"
    by code_simp
  have "0 <s (9223372036854775807 :: int64)" by (simp add: word_sless_alt)
  moreover have "bucket_inv (NewTokenBucket 9223372036854775807 1 0)"
    by (simp add: bucket_inv_def NewTokenBucket_def word_sle_eq)
  moreover have "\<exists>tb. Allows (NewTokenBucket 9223372036854775807 1 0) [1000000000] = Some [(False, tb)]
      \<and> Tokens tb <s 0 \<and> \<not> bucket_inv tb"
    by (simp add: a bucket_inv_def word_sless_alt word_sle_eq)
  ultimately show ?thesis by (intro conjI)
qed

text \<open>
  Claim C2, amended. For a bucket made with a capacity \<open>C > 0\<close> and a rate \<open>R\<close> such
  that \<open>C + 9223372037 * |R|\<close> is at most the largest \<^verbatim>\<open>int\<close> (no refill can leave the
  64 bits), and for every sequence of clock readings, monotonic or not: every call of
  \<^verbatim>\<open>Allow\<close> returns, and \<open>0 \<le> tokens \<le> C\<close> holds when the bucket is made and after
  each call, so before each call as well.
\<close>

theorem token_bounds:
  assumes "0 <s C" and "sint C + 9223372037 * \<bar>sint R\<bar> \<le> 9223372036854775807"
  shows "0 \<le>s Tokens (NewTokenBucket C R t0) \<and> Tokens (NewTokenBucket C R t0) \<le>s C \<and>
    (\<exists>rs. Allows (NewTokenBucket C R t0) ts = Some rs \<and>
       (\<forall>(ok, tb) \<in> set rs. 0 \<le>s Tokens tb \<and> Tokens tb \<le>s C))"
proof -
  have i: "bucket_inv (NewTokenBucket C R t0)"
    using assms(1) by (simp add: bucket_inv_def NewTokenBucket_def word_sle_eq word_sless_alt)
  have n: "no_overflow (NewTokenBucket C R t0)"
    using assms(2) by (simp add: no_overflow_def NewTokenBucket_def)
  have c: "Cap (NewTokenBucket C R t0) = C"
    by (simp add: NewTokenBucket_def)
  from Allows_inv [OF i n, of ts] obtain rs
    where rs: "Allows (NewTokenBucket C R t0) ts = Some rs"
      "\<forall>(ok, tb) \<in> set rs. bucket_inv tb \<and> Cap tb = Cap (NewTokenBucket C R t0)"
    by blast
  from rs(2) have "\<forall>(ok, tb) \<in> set rs. 0 \<le>s Tokens tb \<and> Tokens tb \<le>s C"
    by (auto simp: bucket_inv_def c)
  with rs(1) i c show ?thesis
    by (auto simp: bucket_inv_def)
qed

theorem token_bounds_witness:
  "0 <s (3 :: int64) \<and> sint (3 :: int64) + 9223372037 * \<bar>sint (1 :: int64)\<bar> \<le> 9223372036854775807 \<and>
   0 \<le>s Tokens (NewTokenBucket 3 1 0) \<and> Tokens (NewTokenBucket 3 1 0) \<le>s 3 \<and>
   (\<exists>rs. Allows (NewTokenBucket 3 1 0) [0, 500000000, 86400000000000] = Some rs
      \<and> (\<forall>(ok, tb) \<in> set rs. 0 \<le>s Tokens tb \<and> Tokens tb \<le>s 3))"
proof -
  have h1: "0 <s (3 :: int64)" by (simp add: word_sless_alt)
  have h2: "sint (3 :: int64) + 9223372037 * \<bar>sint (1 :: int64)\<bar> \<le> 9223372036854775807" by simp
  from token_bounds [OF h1 h2, of 0 "[0, 500000000, 86400000000000]"] h1 h2
  show ?thesis by (intro conjI) simp_all
qed

subsection \<open>The refill step\<close>

text \<open>
  The error of the \<^verbatim>\<open>float64\<close> product against the exact one. An approximation \<open>a\<close> of
  \<open>x \<ge> 0\<close> has the relative error \<open>A - 1\<close> when \<open>|a - x| \<le> x * (A - 1)\<close>; a rounding
  multiplies \<open>A\<close> by \<open>1 + 2\<^sup>-\<^sup>5\<^sup>3\<close>, and a product multiplies the factors of its operands.
\<close>

lemma round_rel:
  assumes x: "0 \<le> x" and a: "\<bar>a - x\<bar> \<le> x * (A - 1)"
  shows "\<bar>float_round a - x\<bar> \<le> x * (A * (1 + 1 / 2 ^ 53) - 1)"
proof -
  have "\<bar>a\<bar> \<le> \<bar>x\<bar> + \<bar>a - x\<bar>" by linarith
  with x a have "\<bar>a\<bar> \<le> x + x * (A - 1)" by linarith
  then have aa: "\<bar>a\<bar> \<le> x * A" by (simp add: algebra_simps)
  have "\<bar>float_round a - a\<bar> \<le> \<bar>a\<bar> / 2 ^ 53" by (rule float_round_error)
  also have "\<dots> \<le> x * A / 2 ^ 53" using aa by (simp add: divide_right_mono)
  finally have "\<bar>float_round a - a\<bar> \<le> x * A / 2 ^ 53" .
  with a have "\<bar>float_round a - x\<bar> \<le> x * A / 2 ^ 53 + x * (A - 1)" by linarith
  also have "\<dots> = x * (A * (1 + 1 / 2 ^ 53) - 1)" by (simp add: algebra_simps)
  finally show ?thesis .
qed

lemma mul_rel:
  assumes x: "0 \<le> (x::rat)" and y: "0 \<le> y" and A: "1 \<le> A"
    and a: "\<bar>a - x\<bar> \<le> x * (A - 1)" and b: "\<bar>b - y\<bar> \<le> y * (B - 1)"
  shows "\<bar>a * b - x * y\<bar> \<le> x * y * (A * B - 1)"
proof -
  have "\<bar>b\<bar> \<le> \<bar>y\<bar> + \<bar>b - y\<bar>" by linarith
  with y b have "\<bar>b\<bar> \<le> y + y * (B - 1)" by linarith
  then have bb: "\<bar>b\<bar> \<le> y * B" by (simp add: algebra_simps)
  have xa: "0 \<le> x * (A - 1)" using x A by simp
  have "a * b - x * y = (a - x) * b + x * (b - y)" by (simp add: algebra_simps)
  then have "\<bar>a * b - x * y\<bar> \<le> \<bar>(a - x) * b\<bar> + \<bar>x * (b - y)\<bar>" by (simp only: abs_triangle_ineq)
  also have "\<dots> = \<bar>a - x\<bar> * \<bar>b\<bar> + x * \<bar>b - y\<bar>" using x by (simp add: abs_mult)
  also have "\<dots> \<le> (x * (A - 1)) * (y * B) + x * (y * (B - 1))"
    using a bb b x xa by (intro add_mono mult_mono mult_left_mono) simp_all
  also have "\<dots> = x * y * (A * B - 1)" by (simp add: algebra_simps)
  finally show ?thesis .
qed

lemma sdiv_smod_split:
  assumes "0 \<le> (k::int)"
  shows "0 \<le> k sdiv 1000000000 \<and> 0 \<le> k smod 1000000000
     \<and> k sdiv 1000000000 * 1000000000 + k smod 1000000000 = k"
proof -
  from sdiv_smod_nonneg [OF assms, of 1000000000]
  have n: "0 \<le> k sdiv 1000000000" "0 \<le> k smod 1000000000" by simp_all
  have "\<bar>k sdiv 1000000000\<bar> * 1000000000 + \<bar>k smod 1000000000\<bar> = \<bar>k\<bar>"
    by (rule sdiv_smod_abs) simp
  with n assms show ?thesis by simp
qed

lemma Seconds_rel:
  assumes d: "0 \<le> sint d"
  shows "\<bar>Seconds d - of_int (sint d) / 1000000000\<bar>
     \<le> of_int (sint d) / 1000000000 * ((1 + 1 / 2 ^ 53) ^ 3 - 1)"
proof -
  define U :: rat where "U = 1 + 1 / 2 ^ 53"
  have U: "1 \<le> U" unfolding U_def by simp
  define a where "a = sint d sdiv 1000000000"
  define b where "b = sint d smod 1000000000"
  from sdiv_smod_split [OF d]
  have ab: "0 \<le> a" "0 \<le> b" "a * 1000000000 + b = sint d" by (simp_all add: a_def b_def)
  define x :: rat where "x = of_int a"
  define y :: rat where "y = of_int b / 1000000000"
  have xy: "0 \<le> x" "0 \<le> y" using ab by (simp_all add: x_def y_def)
  have "of_int (sint d) = (of_int (a * 1000000000 + b) :: rat)" by (simp only: ab)
  then have s: "of_int (sint d) / 1000000000 = x + y"
    by (simp add: x_def y_def field_simps del: of_int_sint)
  define q where "q = float_round (float_round (of_int b) / 1000000000)"
  have S: "Seconds d = float_round (float_round (of_int a) + q)"
    by (simp add: Seconds_def Second_def Let_def float_add_def float_quo_def float64_def a_def b_def q_def)
  have "\<bar>float_round (of_int a) - x\<bar> \<le> x * (1 * U - 1)"
    unfolding U_def x_def using ab by (intro round_rel) simp_all
  also have "\<dots> \<le> x * (U * U - 1)"
    using xy U by (intro mult_left_mono) (simp_all add: mult_le_cancel_right1)
  finally have fa: "\<bar>float_round (of_int a) - x\<bar> \<le> x * (U * U - 1)" .
  have "\<bar>float_round (of_int b) - of_int b\<bar> \<le> of_int b * (1 * U - 1)"
    unfolding U_def using ab by (intro round_rel) simp_all
  then have "\<bar>float_round (of_int b) - of_int b\<bar> / 1000000000 \<le> of_int b * (1 * U - 1) / 1000000000"
    by (simp add: divide_right_mono)
  then have "\<bar>float_round (of_int b) / 1000000000 - y\<bar> \<le> y * (U - 1)"
    by (simp add: y_def diff_divide_distrib [symmetric])
  then have fq: "\<bar>q - y\<bar> \<le> y * (U * U - 1)"
    unfolding q_def U_def using xy by (intro round_rel) simp_all
  have "\<bar>(float_round (of_int a) + q) - (x + y)\<bar> \<le> \<bar>float_round (of_int a) - x\<bar> + \<bar>q - y\<bar>"
    by linarith
  with fa fq have "\<bar>(float_round (of_int a) + q) - (x + y)\<bar> \<le> x * (U * U - 1) + y * (U * U - 1)"
    by linarith
  then have "\<bar>(float_round (of_int a) + q) - (x + y)\<bar> \<le> (x + y) * (U * U - 1)"
    by (simp add: algebra_simps)
  then have "\<bar>float_round (float_round (of_int a) + q) - (x + y)\<bar> \<le> (x + y) * (U * U * U - 1)"
    unfolding U_def using xy by (intro round_rel) simp_all
  then show ?thesis
    by (simp only: S s U_def power3_eq_cube)
qed

lemma product_rel:
  assumes d: "0 \<le> sint d" and r: "0 \<le> r"
  shows "\<bar>float_mul (Seconds d) (float64 r) - of_int (sint d) / 1000000000 * of_int r\<bar>
     \<le> of_int (sint d) / 1000000000 * of_int r * ((1 + 1 / 2 ^ 53) ^ 5 - 1)"
proof -
  define U :: rat where "U = 1 + 1 / 2 ^ 53"
  have U: "1 \<le> U" unfolding U_def by simp
  then have U3: "1 \<le> U ^ 3" by (rule one_le_power)
  define x :: rat where "x = of_int (sint d) / 1000000000"
  define y :: rat where "y = of_int r"
  have xy: "0 \<le> x" "0 \<le> y" using d r by (simp_all add: x_def y_def del: of_int_sint)
  have S: "\<bar>Seconds d - x\<bar> \<le> x * (U ^ 3 - 1)"
    unfolding x_def U_def using d by (rule Seconds_rel)
  have "\<bar>float_round (of_int r) - y\<bar> \<le> y * (1 * U - 1)"
    unfolding U_def y_def using r by (intro round_rel) simp_all
  then have R: "\<bar>float64 r - y\<bar> \<le> y * (U - 1)" by (simp add: float64_def)
  have "\<bar>Seconds d * float64 r - x * y\<bar> \<le> x * y * (U ^ 3 * U - 1)"
    using xy U3 S R by (rule mul_rel)
  then have "\<bar>float_round (Seconds d * float64 r) - x * y\<bar> \<le> x * y * (U ^ 3 * U * U - 1)"
    unfolding U_def using xy by (intro round_rel) simp_all
  also have "U ^ 3 * U * U = U ^ 5" by (simp add: power_numeral_reduce)
  finally show ?thesis
    by (simp only: float_mul_def x_def y_def U_def)
qed

lemma rounding_margin:
  "1000000 * ((1 + 1 / 2 ^ 53) ^ 5 - 1) < (1 / 1000000000 :: rat)"
  by (simp add: power_numeral_reduce field_simps)

lemma floor_enclosure:
  assumes m: "0 \<le> m" and E: "E = rat_of_int m / 1000000000" and E6: "E < 1000000"
    and P: "\<bar>P - E\<bar> \<le> E * ((1 + 1 / 2 ^ 53) ^ 5 - 1)"
  shows "\<lfloor>E\<rfloor> - 1 \<le> \<lfloor>P\<rfloor> \<and> \<lfloor>P\<rfloor> \<le> \<lfloor>E\<rfloor>"
proof -
  define c :: rat where "c = (1 + 1 / 2 ^ 53) ^ 5 - 1"
  have "(1::rat) \<le> (1 + 1 / 2 ^ 53) ^ 5" by (rule one_le_power) simp
  then have c0: "0 \<le> c" by (simp add: c_def)
  have "E * c \<le> 1000000 * c" using E6 c0 by (intro mult_right_mono) simp_all
  also have "\<dots> < 1 / 1000000000" unfolding c_def by (rule rounding_margin)
  finally have e: "E * c < 1 / 1000000000" .
  with P have pe: "\<bar>P - E\<bar> < 1 / 1000000000" unfolding c_def by linarith
  have "of_int \<lfloor>E\<rfloor> \<le> E" by linarith
  with pe have "of_int \<lfloor>E\<rfloor> - 1 \<le> P" by linarith
  then have "of_int (\<lfloor>E\<rfloor> - 1) \<le> P" by simp
  then have lo: "\<lfloor>E\<rfloor> - 1 \<le> \<lfloor>P\<rfloor>" by (simp only: le_floor_iff)
  have "E < of_int \<lfloor>E\<rfloor> + 1" by linarith
  then have "E < of_int (\<lfloor>E\<rfloor> + 1)" by simp
  then have "rat_of_int m < of_int (\<lfloor>E\<rfloor> + 1) * 1000000000"
    by (simp add: E field_simps)
  then have "rat_of_int m < of_int ((\<lfloor>E\<rfloor> + 1) * 1000000000)" by simp
  then have "m < (\<lfloor>E\<rfloor> + 1) * 1000000000" by (simp only: of_int_less_iff)
  then have "m + 1 \<le> (\<lfloor>E\<rfloor> + 1) * 1000000000" by simp
  then have "rat_of_int (m + 1) \<le> of_int ((\<lfloor>E\<rfloor> + 1) * 1000000000)" by (simp only: of_int_le_iff)
  then have "E + 1 / 1000000000 \<le> of_int (\<lfloor>E\<rfloor> + 1)"
    by (simp add: E field_simps)
  with pe have "P < of_int (\<lfloor>E\<rfloor> + 1)" by linarith
  then have "\<lfloor>P\<rfloor> < \<lfloor>E\<rfloor> + 1" by (simp only: floor_less_iff)
  with lo show ?thesis by simp
qed

lemma acquire_frame:
  "LastCheck (snd (acquire b)) = LastCheck b \<and> Cap (snd (acquire b)) = Cap b \<and>
   Rate (snd (acquire b)) = Rate b \<and> interval (snd (acquire b)) = interval b \<and>
   Tokens (snd (acquire b)) = (if fst (acquire b) then Tokens b - 1 else Tokens b)"
  by (simp add: acquire_def)

lemma product_nonneg:
  assumes "LastCheck tb \<le> now" and "0 \<le> sint (Rate tb)"
  shows "0 \<le> float_mul (Seconds (Time_Sub now (LastCheck tb))) (float64 (sint (Rate tb)))"
proof -
  have "0 \<le> Seconds (Time_Sub now (LastCheck tb))"
    using assms(1) by (intro Seconds_nonneg Time_Sub_nonneg)
  moreover have "0 \<le> float64 (sint (Rate tb))"
    using assms(2) by (simp add: float64_def float_round_nonneg del: of_int_sint)
  ultimately show ?thesis
    by (simp add: float_mul_def float_round_nonneg)
qed

lemma amount_enclosure:
  assumes mono: "LastCheck tb \<le> now" and rate: "0 \<le> sint (Rate tb)"
    and small: "spec_newTokens tb now < 1000000"
  shows "spec_newTokens tb now - 1
       \<le> \<lfloor>float_mul (Seconds (Time_Sub now (LastCheck tb))) (float64 (sint (Rate tb)))\<rfloor>
     \<and> \<lfloor>float_mul (Seconds (Time_Sub now (LastCheck tb))) (float64 (sint (Rate tb)))\<rfloor>
       \<le> spec_newTokens tb now"
proof (cases "sint (Rate tb) = 0")
  case True
  then show ?thesis
    by (simp add: spec_newTokens_def float_mul_def del: of_int_sint)
next
  case False
  define n where "n = now - LastCheck tb"
  define r where "r = sint (Rate tb)"
  define E :: rat where "E = of_int n / 1000000000 * of_int r"
  have n: "0 \<le> n" using mono by (simp add: n_def)
  have r: "1 \<le> r" using rate False by (simp add: r_def)
  have sp: "spec_newTokens tb now = \<lfloor>E\<rfloor>"
    by (simp add: spec_newTokens_def E_def n_def r_def del: of_int_sint of_int_diff)
  with small have "\<lfloor>E\<rfloor> < 1000000" by simp
  then have "E < of_int 1000000" by (simp only: floor_less_iff)
  then have E6: "E < 1000000" by simp
  have "rat_of_int n / 1000000000 * 1 \<le> of_int n / 1000000000 * of_int r"
    using n r by (intro mult_left_mono) simp_all
  with E6 have "rat_of_int n / 1000000000 < 1000000" by (simp add: E_def)
  then have "rat_of_int n < of_int 1000000000000000" by (simp add: field_simps)
  then have "n < 1000000000000000" by (simp only: of_int_less_iff)
  with n have "minDuration \<le> now - LastCheck tb" "now - LastCheck tb \<le> maxDuration"
    by (simp_all add: n_def minDuration_def maxDuration_def)
  then have d: "sint (Time_Sub now (LastCheck tb)) = n"
    unfolding n_def by (rule Time_Sub_sint)
  have "0 \<le> sint (Time_Sub now (LastCheck tb))" using d n by simp
  moreover have "0 \<le> r" using r by simp
  ultimately have "\<bar>float_mul (Seconds (Time_Sub now (LastCheck tb))) (float64 r)
        - of_int (sint (Time_Sub now (LastCheck tb))) / 1000000000 * of_int r\<bar>
     \<le> of_int (sint (Time_Sub now (LastCheck tb))) / 1000000000 * of_int r * ((1 + 1 / 2 ^ 53) ^ 5 - 1)"
    by (rule product_rel)
  then have P: "\<bar>float_mul (Seconds (Time_Sub now (LastCheck tb))) (float64 r) - E\<bar>
     \<le> E * ((1 + 1 / 2 ^ 53) ^ 5 - 1)"
    by (simp only: d E_def)
  have m: "0 \<le> n * r" using n r by simp
  have Em: "E = rat_of_int (n * r) / 1000000000" by (simp add: E_def)
  from floor_enclosure [OF m Em E6 P] show ?thesis
    by (simp only: sp r_def)
qed

text \<open>
  Claim C3, as it is stated, fails. A bucket of rate 100 is asked 290 ms after its last
  refill. The elapsed seconds times the rate are 29, and the floor of 29 is 29. The
  code computes in \<^verbatim>\<open>float64\<close>: \<^verbatim>\<open>Seconds()\<close> returns the double nearest to 0.29, which is
  below 0.29, its product with 100 rounds to the double just below 29, and the
  conversion to \<^verbatim>\<open>int\<close> truncates it to 28. The bucket, empty before, is refilled with 28
  tokens, not 29, and one is taken.
\<close>

theorem refill_step_counterexample:
  "spec_newTokens \<lparr>Cap = 100, Rate = 100, interval = Second, Tokens = 0, LastCheck = 0\<rparr> 290000000 = 29 \<and>
   newTokens \<lparr>Cap = 100, Rate = 100, interval = Second, Tokens = 0, LastCheck = 0\<rparr> 290000000 = Some 28 \<and>
   Allow \<lparr>Cap = 100, Rate = 100, interval = Second, Tokens = 0, LastCheck = 0\<rparr> 290000000
     = Some (True, \<lparr>Cap = 100, Rate = 100, interval = Second, Tokens = 27, LastCheck = 290000000\<rparr>)"
proof -
  let ?tb = "\<lparr>Cap = 100, Rate = 100, interval = Second, Tokens = 0, LastCheck = 0\<rparr>"
  have "spec_newTokens ?tb 290000000 = 29"
    by (simp add: spec_newTokens_def)
  moreover have "newTokens ?tb 290000000 = Some 28"
    by code_simp
  moreover have "Allow ?tb 290000000
     = Some (True, \<lparr>Cap = 100, Rate = 100, interval = Second, Tokens = 27, LastCheck = 290000000\<rparr>)"
    by code_simp
  ultimately show ?thesis by (intro conjI)
qed

text \<open>
  Claim C3, amended. Take a bucket with the interval of one second that \<^verbatim>\<open>NewTokenBucket\<close>
  gives, and let \<open>p\<close> be the \<^verbatim>\<open>float64\<close> product \<^verbatim>\<open>duration.Seconds() * float64(tb.Rate)\<close>
  of the code, each operation rounded, with \<open>duration\<close> the time since \<^verbatim>\<open>LastCheck\<close>;
  let \<open>p\<close> lie within the 64 bits. Then the call returns and the refill amount is \<open>p\<close>
  truncated towards zero. With a clock that has not gone back and a rate that is not
  negative the amount is the floor of \<open>p\<close> and not negative; if moreover the floor of
  the exact product \<open>elapsed seconds * rate\<close> is below a million, the amount is that
  floor or one less. When the amount is positive, \<^verbatim>\<open>Allow\<close> is the taking of a token from
  the bucket with \<^verbatim>\<open>Tokens\<close> set to \<^verbatim>\<open>min(Tokens + amount, Cap)\<close> and \<^verbatim>\<open>LastCheck\<close> set to
  \<open>now\<close>; when it is zero or negative, \<^verbatim>\<open>Allow\<close> is the taking of a token from the bucket
  as it was. The sum is the 64-bit sum of the code; it is the sum of the integers, and
  the result their minimum, whenever that sum is at most the largest \<^verbatim>\<open>int\<close>. The lemma
  \<open>acquire_frame\<close> above says what the taking of a token changes: \<^verbatim>\<open>Tokens\<close> only, by one.
\<close>

theorem refill_step:
  assumes i: "interval tb = Second"
    and fits: "\<bar>float_mul (Seconds (Time_Sub now (LastCheck tb))) (float64 (sint (Rate tb)))\<bar>
                 < 9223372036854775808"
  shows "\<exists>a. newTokens tb now = Some a
     \<and> sint a = trunc0 (float_mul (Seconds (Time_Sub now (LastCheck tb))) (float64 (sint (Rate tb))))
     \<and> (LastCheck tb \<le> now \<and> 0 \<le>s Rate tb \<longrightarrow>
          0 \<le> sint a
          \<and> sint a = \<lfloor>float_mul (Seconds (Time_Sub now (LastCheck tb))) (float64 (sint (Rate tb)))\<rfloor>)
     \<and> (LastCheck tb \<le> now \<and> 0 \<le>s Rate tb \<and> spec_newTokens tb now < 1000000 \<longrightarrow>
          spec_newTokens tb now - 1 \<le> sint a \<and> sint a \<le> spec_newTokens tb now)
     \<and> (0 < sint a \<longrightarrow>
          Allow tb now = Some (acquire (tb\<lparr>Tokens := min64 (Tokens tb + a) (Cap tb), LastCheck := now\<rparr>)))
     \<and> (sint a \<le> 0 \<longrightarrow> Allow tb now = Some (acquire tb))
     \<and> (0 < sint a \<and> sint (Tokens tb) + sint a \<le> 9223372036854775807 \<longrightarrow>
          sint (min64 (Tokens tb + a) (Cap tb)) = min (sint (Tokens tb) + sint a) (sint (Cap tb)))"
proof -
  let ?p = "float_mul (Seconds (Time_Sub now (LastCheck tb))) (float64 (sint (Rate tb)))"
  from fits have "of_int (- 9223372036854775808) \<le> ?p" by simp
  then have lo: "- 9223372036854775808 \<le> trunc0 ?p" by (rule trunc0_ge)
  have hi: "trunc0 ?p \<le> 9223372036854775807"
  proof (cases "0 \<le> ?p")
    case True
    from fits have "?p < of_int 9223372036854775808" by simp
    then have "\<lfloor>?p\<rfloor> < 9223372036854775808" by (simp only: floor_less_iff)
    with True show ?thesis by (simp add: trunc0_def)
  next
    case False
    then have "?p \<le> of_int 0" by simp
    then have "trunc0 ?p \<le> 0" by (rule trunc0_le)
    then show ?thesis by simp
  qed
  note rng = lo hi
  let ?a = "word_of_int (trunc0 ?p) :: int64"
  have sa: "sint ?a = trunc0 ?p"
    using rng by (rule sint_word_of_int64)
  have n: "newTokens tb now = Some ?a"
    using rng by (simp add: newTokens_Second [OF i] float_to_int_def Let_def)
  have fl: "LastCheck tb \<le> now \<and> 0 \<le>s Rate tb \<longrightarrow> 0 \<le> sint ?a \<and> sint ?a = \<lfloor>?p\<rfloor>"
  proof
    assume "LastCheck tb \<le> now \<and> 0 \<le>s Rate tb"
    then have "0 \<le> ?p" by (intro product_nonneg) (simp_all add: word_sle_eq)
    then have "trunc0 ?p = \<lfloor>?p\<rfloor>" "0 \<le> \<lfloor>?p\<rfloor>" by (simp_all add: trunc0_nonneg)
    with sa show "0 \<le> sint ?a \<and> sint ?a = \<lfloor>?p\<rfloor>" by simp
  qed
  have en: "LastCheck tb \<le> now \<and> 0 \<le>s Rate tb \<and> spec_newTokens tb now < 1000000 \<longrightarrow>
      spec_newTokens tb now - 1 \<le> sint ?a \<and> sint ?a \<le> spec_newTokens tb now"
  proof
    assume h: "LastCheck tb \<le> now \<and> 0 \<le>s Rate tb \<and> spec_newTokens tb now < 1000000"
    then have "spec_newTokens tb now - 1 \<le> \<lfloor>?p\<rfloor> \<and> \<lfloor>?p\<rfloor> \<le> spec_newTokens tb now"
      by (intro amount_enclosure) (simp_all add: word_sle_eq)
    moreover from h fl have "sint ?a = \<lfloor>?p\<rfloor>" by blast
    ultimately show "spec_newTokens tb now - 1 \<le> sint ?a \<and> sint ?a \<le> spec_newTokens tb now"
      by (simp only:)
  qed
  have pos: "0 < sint ?a \<longrightarrow>
      Allow tb now = Some (acquire (tb\<lparr>Tokens := min64 (Tokens tb + ?a) (Cap tb), LastCheck := now\<rparr>))"
    by (simp add: Allow_def n refill_def word_sless_alt)
  have zero: "sint ?a \<le> 0 \<longrightarrow> Allow tb now = Some (acquire tb)"
    by (simp add: Allow_def n refill_def word_sless_alt)
  have m: "0 < sint ?a \<and> sint (Tokens tb) + sint ?a \<le> 9223372036854775807 \<longrightarrow>
      sint (min64 (Tokens tb + ?a) (Cap tb)) = min (sint (Tokens tb) + sint ?a) (sint (Cap tb))"
  proof
    assume h: "0 < sint ?a \<and> sint (Tokens tb) + sint ?a \<le> 9223372036854775807"
    then have "- 9223372036854775808 \<le> sint (Tokens tb) + sint ?a"
      using sint64_range [of "Tokens tb"] by linarith
    with h have "sint (Tokens tb + ?a) = sint (Tokens tb) + sint ?a"
      by (intro sint_add64) simp_all
    then show "sint (min64 (Tokens tb + ?a) (Cap tb)) = min (sint (Tokens tb) + sint ?a) (sint (Cap tb))"
      by (simp only: min64_sint)
  qed
  from n sa fl en pos zero m show ?thesis by blast
qed

theorem refill_step_witness:
  "interval \<lparr>Cap = 3, Rate = 2, interval = Second, Tokens = 0, LastCheck = 0\<rparr> = Second \<and>
   \<bar>float_mul (Seconds (Time_Sub 1500000000
        (LastCheck \<lparr>Cap = 3, Rate = 2, interval = Second, Tokens = 0, LastCheck = 0\<rparr>)))
      (float64 (sint (Rate \<lparr>Cap = 3, Rate = 2, interval = Second, Tokens = 0, LastCheck = 0\<rparr>)))\<bar>
     < 9223372036854775808 \<and>
   spec_newTokens \<lparr>Cap = 3, Rate = 2, interval = Second, Tokens = 0, LastCheck = 0\<rparr> 1500000000 = 3 \<and>
   (\<exists>a. newTokens \<lparr>Cap = 3, Rate = 2, interval = Second, Tokens = 0, LastCheck = 0\<rparr> 1500000000 = Some a
      \<and> sint a = 3
      \<and> Allow \<lparr>Cap = 3, Rate = 2, interval = Second, Tokens = 0, LastCheck = 0\<rparr> 1500000000
          = Some (True, \<lparr>Cap = 3, Rate = 2, interval = Second, Tokens = 2, LastCheck = 1500000000\<rparr>))"
proof -
  let ?tb = "\<lparr>Cap = 3, Rate = 2, interval = Second, Tokens = 0, LastCheck = 0\<rparr>"
  let ?p = "float_mul (Seconds (Time_Sub 1500000000 (LastCheck ?tb))) (float64 (sint (Rate ?tb)))"
  have h1: "interval ?tb = Second" by simp
  have p: "?p = 3" by code_simp
  then have h2: "\<bar>?p\<bar> < 9223372036854775808" by simp
  have sp: "spec_newTokens ?tb 1500000000 = 3" by (simp add: spec_newTokens_def)
  from refill_step [OF h1 h2] obtain a where a: "newTokens ?tb 1500000000 = Some a"
    "sint a = trunc0 ?p"
    "0 < sint a \<longrightarrow> Allow ?tb 1500000000
       = Some (acquire (?tb\<lparr>Tokens := min64 (Tokens ?tb + a) (Cap ?tb), LastCheck := 1500000000\<rparr>))"
    by blast
  from a(2) have a3: "sint a = 3" by (simp only: p) (simp add: trunc0_def)
  have "newTokens ?tb 1500000000 = Some 3" by code_simp
  with a(1) have "a = 3" by simp
  with a(3) a3 have "Allow ?tb 1500000000
      = Some (True, \<lparr>Cap = 3, Rate = 2, interval = Second, Tokens = 2, LastCheck = 1500000000\<rparr>)"
    by (simp add: acquire_def min64_def word_sless_alt)
  with a(1) a3 h1 h2 sp show ?thesis by blast
qed


subsection \<open>The rate-limit stage\<close>

lemma Header_Set_response:
  "response (Header_Set w k v s) = (response s)\<lparr>resp_header := (resp_header (response s))(k \<mapsto> [v])\<rparr>"
  by (induction w arbitrary: s) simp_all

lemma Header_Del_response:
  "response (Header_Del w k s) = (response s)\<lparr>resp_header := (resp_header (response s))(k := None)\<rparr>"
  by (induction w arbitrary: s) simp_all

lemma WriteHeader_response:
  "response (WriteHeader w c s) =
     (case resp_status (response s) of
        None \<Rightarrow> (response s)\<lparr>resp_status := Some c\<rparr>
      | Some x \<Rightarrow> response s)"
  by (induction w arbitrary: s) (simp_all split: option.splits)

lemma Write_response:
  "response (Write w d s) =
     (response s)\<lparr>resp_status := (case resp_status (response s) of None \<Rightarrow> Some 200 | Some x \<Rightarrow> Some x),
                   resp_body := resp_body (response s) @ d\<rparr>"
  by (induction w arbitrary: s) (simp_all add: Let_def split: option.splits)

lemma http_Error_status:
  "resp_status (response (http_Error w e c s)) =
     (case resp_status (response s) of None \<Rightarrow> Some c | Some x \<Rightarrow> Some x)"
  by (simp add: http_Error_def Let_def Write_response WriteHeader_response Header_Set_response
      Header_Del_response split: option.splits)

lemma http_Error_header:
  "resp_header (response (http_Error w e c s)) =
     (resp_header (response s))
       (''Content-Length'' := None,
        ''Content-Type'' \<mapsto> [''text/plain; charset=utf-8''],
        ''X-Content-Type-Options'' \<mapsto> [''nosniff''])"
  by (simp add: http_Error_def Let_def Write_response WriteHeader_response Header_Set_response
      Header_Del_response split: option.splits)

lemma log_Printf_response: "response (log_Printf e s) = response s"
  by (simp add: log_Printf_def)

lemma too_many_requests_header:
  "resp_header (response (too_many_requests w r s)) ''Retry-After'' = Some [''1'']"
  by (simp add: too_many_requests_def Let_def log_Printf_response http_Error_header Header_Set_response)

lemma too_many_requests_status:
  "resp_status (response s) = None \<Longrightarrow>
   resp_status (response (too_many_requests w r s)) = Some 429"
  by (simp add: too_many_requests_def Let_def log_Printf_response http_Error_status Header_Set_response)

lemma bucket_update_response: "response (bucket_update l tb s) = response s"
  by (cases l) simp_all

lemma bucket_of_find_limiter:
  "bucket_of s (find_limiter s r) =
     Some (case routeLimiters s (URL_Path r) of Some tb \<Rightarrow> tb | None \<Rightarrow> globalLimiter s)"
  by (simp add: find_limiter_def split: option.splits)

lemma Allow_fields:
  "Allow tb now = Some (ok, tb') \<Longrightarrow>
   Cap tb' = Cap tb \<and> Rate tb' = Rate tb \<and> interval tb' = interval tb"
  by (auto simp: Allow_def acquire_def refill_def split: option.splits if_splits)

text \<open>
  The loop that makes the buckets stops at the first route of positive QPS: the map
  holds the bucket of that route and nothing else.
\<close>

lemma routeLimiters_loop_find:
  "routeLimiters_loop rotes now m =
     (case find (\<lambda>route. 0 <s QPS route) rotes of
        None \<Rightarrow> m
      | Some route \<Rightarrow> m(Path route \<mapsto> NewTokenBucket (QPS route * 2) (QPS route) now))"
  by (induction rotes) (auto simp: fun_upd_def)

lemma routeLimiters_make_find:
  "routeLimiters_make rotes now =
     (case find (\<lambda>route. 0 <s QPS route) rotes of
        None \<Rightarrow> Map.empty
      | Some route \<Rightarrow> [Path route \<mapsto> NewTokenBucket (QPS route * 2) (QPS route) now])"
  by (simp add: routeLimiters_make_def routeLimiters_loop_find)

text \<open>
  Claim C4 asks for a bucket of capacity \<open>QPS * 2\<close> and rate \<open>QPS\<close> for every route of
  positive QPS. The code gives one to the first such route only. With the routes
  \<^verbatim>\<open>/a\<close> of QPS 5 and \<^verbatim>\<open>/b\<close> of QPS 7, \<^verbatim>\<open>/a\<close> has the bucket the claim describes and
  \<^verbatim>\<open>/b\<close> has none.
\<close>

theorem only_first_route_gets_bucket:
  "routeLimiters_make
     [\<lparr>Path = ''/a'', Target = ''http://a'', QPS = 5\<rparr>,
      \<lparr>Path = ''/b'', Target = ''http://b'', QPS = 7\<rparr>] t ''/a''
     = Some (NewTokenBucket 10 5 t) \<and>
   routeLimiters_make
     [\<lparr>Path = ''/a'', Target = ''http://a'', QPS = 5\<rparr>,
      \<lparr>Path = ''/b'', Target = ''http://b'', QPS = 7\<rparr>] t ''/b''
     = None"
  by (simp add: routeLimiters_make_def word_sless_alt)

text \<open>
  Claim C5. Let \<open>tb\<close> be the bucket selected for the request and let its \<^verbatim>\<open>Allow\<close>
  return \<open>ok\<close>, leaving the bucket \<open>tb'\<close>. If \<open>ok\<close> is false, the stage returns the same
  state whatever handler it wraps (the handler is not called): the bucket stored, the
  header \<^verbatim>\<open>Retry-After: 1\<close> set, the error 429 written, and the refusal logged; the status
  of the response is 429 unless a status had been written before the stage. If \<open>ok\<close> is
  true, the stage is the wrapped handler, run on the state with the bucket stored.
\<close>

theorem rate_limit_stage:
  assumes sel: "bucket_of s (find_limiter s r) = Some tb"
    and allow: "Allow tb (clock s) = Some (ok, tb')"
  shows "(\<not> ok \<longrightarrow>
            (\<forall>h. RateLimitMiddleware h w r s
                  = Some (too_many_requests w r (bucket_update (find_limiter s r) tb' s)))
          \<and> resp_header (response (too_many_requests w r (bucket_update (find_limiter s r) tb' s)))
               ''Retry-After'' = Some [''1'']
          \<and> (resp_status (response s) = None \<longrightarrow>
               resp_status (response (too_many_requests w r (bucket_update (find_limiter s r) tb' s)))
                 = Some 429))
       \<and> (ok \<longrightarrow> RateLimitMiddleware next w r s = next w r (bucket_update (find_limiter s r) tb' s))"
  using sel allow
  by (simp add: RateLimitMiddleware_def Let_def too_many_requests_header too_many_requests_status
      bucket_update_response)

theorem rate_limit_stage_witness:
  "bucket_of
     \<lparr>clock = 0, response = \<lparr>resp_header = Map.empty, resp_status = None, resp_body = []\<rparr>,
      StatusCode = (\<lambda>a. 0), wrappers = 0, logged = [], routeLimiters = Map.empty,
      globalLimiter = \<lparr>Cap = 1, Rate = 1, interval = Second, Tokens = 0, LastCheck = 0\<rparr>\<rparr>
     (find_limiter
        \<lparr>clock = 0, response = \<lparr>resp_header = Map.empty, resp_status = None, resp_body = []\<rparr>,
         StatusCode = (\<lambda>a. 0), wrappers = 0, logged = [], routeLimiters = Map.empty,
         globalLimiter = \<lparr>Cap = 1, Rate = 1, interval = Second, Tokens = 0, LastCheck = 0\<rparr>\<rparr>
        \<lparr>Method = ''GET'', URL_Path = ''/x'', Req_Header = Map.empty\<rparr>)
     = Some \<lparr>Cap = 1, Rate = 1, interval = Second, Tokens = 0, LastCheck = 0\<rparr> \<and>
   Allow \<lparr>Cap = 1, Rate = 1, interval = Second, Tokens = 0, LastCheck = 0\<rparr> 0
     = Some (False, \<lparr>Cap = 1, Rate = 1, interval = Second, Tokens = 0, LastCheck = 0\<rparr>) \<and>
   (\<exists>s'. RateLimitMiddleware (\<lambda>w r s. Some s) Conn
            \<lparr>Method = ''GET'', URL_Path = ''/x'', Req_Header = Map.empty\<rparr>
            \<lparr>clock = 0, response = \<lparr>resp_header = Map.empty, resp_status = None, resp_body = []\<rparr>,
             StatusCode = (\<lambda>a. 0), wrappers = 0, logged = [], routeLimiters = Map.empty,
             globalLimiter = \<lparr>Cap = 1, Rate = 1, interval = Second, Tokens = 0, LastCheck = 0\<rparr>\<rparr>
            = Some s'
        \<and> resp_status (response s') = Some 429
        \<and> resp_header (response s') ''Retry-After'' = Some [''1''])"
proof -
  let ?tb = "\<lparr>Cap = 1, Rate = 1, interval = Second, Tokens = 0, LastCheck = 0\<rparr>"
  let ?s = "\<lparr>clock = 0, response = \<lparr>resp_header = Map.empty, resp_status = None, resp_body = []\<rparr>,
      StatusCode = (\<lambda>a. 0), wrappers = 0, logged = [], routeLimiters = Map.empty,
      globalLimiter = ?tb\<rparr>"
  let ?r = "\<lparr>Method = ''GET'', URL_Path = ''/x'', Req_Header = Map.empty\<rparr>"
  have h1: "bucket_of ?s (find_limiter ?s ?r) = Some ?tb"
    by (simp add: find_limiter_def)
  have "Allow ?tb (LastCheck ?tb) = Some (acquire ?tb)"
    by (rule Allow_no_elapsed) simp
  then have a: "Allow ?tb 0 = Some (False, ?tb)"
    by (simp add: acquire_def word_sless_alt)
  then have h2: "Allow ?tb (clock ?s) = Some (False, ?tb)" by simp
  from rate_limit_stage [OF h1 h2, of Conn "\<lambda>w r s. Some s"] h1 a show ?thesis by simp
qed

lemma AuthMiddleware_GlobalRateLimit:
  "AuthMiddleware (config\<lparr>GlobalRateLimit := g\<rparr>) = AuthMiddleware config"
  by (intro ext) (simp add: AuthMiddleware_def)

text \<open>
  Claim C9. A request whose path has no bucket in \<^verbatim>\<open>routeLimiters\<close> is admitted or
  refused by \<^verbatim>\<open>Allow\<close> of \<^verbatim>\<open>globalLimiter\<close> alone, and only that bucket changes. The
  server starts with \<^verbatim>\<open>globalLimiter\<close> made by \<^verbatim>\<open>NewTokenBucket(1, 1)\<close>, of capacity 1 and
  rate 1, and \<^verbatim>\<open>Allow\<close> never changes the capacity or the rate of a bucket. Neither the
  starting state nor the handler of \<^verbatim>\<open>main\<close> depends on the field \<^verbatim>\<open>GlobalRateLimit\<close> of
  the configuration: replacing it by any \<open>g\<close> changes nothing. In particular a file
  that leaves the field out is loaded with capacity 3 and rate 1, and the server still
  starts with the bucket of capacity 1 and rate 1.
\<close>

theorem fallback_bucket_fixed:
  assumes none: "routeLimiters s (URL_Path r) = None"
  shows "RateLimitMiddleware next w r s =
           (case Allow (globalLimiter s) (clock s) of
              None \<Rightarrow> None
            | Some (ok, tb') \<Rightarrow>
                if ok then next w r (s\<lparr>globalLimiter := tb'\<rparr>)
                else Some (too_many_requests w r (s\<lparr>globalLimiter := tb'\<rparr>)))
     \<and> globalLimiter (main_state config t0 t1 now) = NewTokenBucket 1 1 t0
     \<and> Cap (NewTokenBucket 1 1 t0) = 1 \<and> Rate (NewTokenBucket 1 1 t0) = 1
     \<and> (\<forall>tb t ok tb'. Allow tb t = Some (ok, tb') \<longrightarrow> Cap tb' = Cap tb \<and> Rate tb' = Rate tb)
     \<and> main_state (config\<lparr>GlobalRateLimit := g\<rparr>) t0 t1 now = main_state config t0 t1 now
     \<and> main_handler proxyHandler (config\<lparr>GlobalRateLimit := g\<rparr>) = main_handler proxyHandler config
     \<and> (\<exists>loaded. loadConfig (Inr (config\<lparr>GlobalRateLimit :=
               \<lparr>GlobalRateLimit_Cap = 0, GlobalRateLimit_Rate = 0\<rparr>\<rparr>)) = Inr loaded
          \<and> GlobalRateLimit loaded = \<lparr>GlobalRateLimit_Cap = 3, GlobalRateLimit_Rate = 1\<rparr>
          \<and> globalLimiter (main_state loaded t0 t1 now) = NewTokenBucket 1 1 t0)"
proof -
  have "\<forall>tb t ok tb'. Allow tb t = Some (ok, tb') \<longrightarrow> Cap tb' = Cap tb \<and> Rate tb' = Rate tb"
    using Allow_fields by blast
  moreover have "\<exists>loaded. loadConfig (Inr (config\<lparr>GlobalRateLimit :=
               \<lparr>GlobalRateLimit_Cap = 0, GlobalRateLimit_Rate = 0\<rparr>\<rparr>)) = Inr loaded
          \<and> GlobalRateLimit loaded = \<lparr>GlobalRateLimit_Cap = 3, GlobalRateLimit_Rate = 1\<rparr>
          \<and> globalLimiter (main_state loaded t0 t1 now) = NewTokenBucket 1 1 t0"
    by (simp add: loadConfig_def Let_def main_state_def main_limiters_def globalLimiter_init_def)
  ultimately show ?thesis using none
    by (simp add: RateLimitMiddleware_def find_limiter_def Let_def main_state_def main_limiters_def
        globalLimiter_init_def NewTokenBucket_def main_handler_def main_middlewares_def
        AuthMiddleware_GlobalRateLimit split: option.splits)
qed

theorem fallback_bucket_fixed_witness:
  "routeLimiters (main_state \<lparr>Port = '':8082'', ApiKeys = [], NoAuthRoutes = [],
        Routes = [\<lparr>Path = ''/a'', Target = ''http://a'', QPS = 5\<rparr>],
        GlobalRateLimit = \<lparr>GlobalRateLimit_Cap = 3, GlobalRateLimit_Rate = 1\<rparr>, Timeout = Second\<rparr> 0 0 0)
     (URL_Path \<lparr>Method = ''GET'', URL_Path = ''/x'', Req_Header = Map.empty\<rparr>) = None \<and>
   RateLimitMiddleware (\<lambda>w r s. Some s) Conn \<lparr>Method = ''GET'', URL_Path = ''/x'', Req_Header = Map.empty\<rparr>
     (main_state \<lparr>Port = '':8082'', ApiKeys = [], NoAuthRoutes = [],
        Routes = [\<lparr>Path = ''/a'', Target = ''http://a'', QPS = 5\<rparr>],
        GlobalRateLimit = \<lparr>GlobalRateLimit_Cap = 3, GlobalRateLimit_Rate = 1\<rparr>, Timeout = Second\<rparr> 0 0 0)
   = Some ((main_state \<lparr>Port = '':8082'', ApiKeys = [], NoAuthRoutes = [],
        Routes = [\<lparr>Path = ''/a'', Target = ''http://a'', QPS = 5\<rparr>],
        GlobalRateLimit = \<lparr>GlobalRateLimit_Cap = 3, GlobalRateLimit_Rate = 1\<rparr>, Timeout = Second\<rparr> 0 0 0)
        \<lparr>globalLimiter := \<lparr>Cap = 1, Rate = 1, interval = Second, Tokens = 0, LastCheck = 0\<rparr>\<rparr>)"
proof -
  let ?c = "\<lparr>Port = '':8082'', ApiKeys = [], NoAuthRoutes = [],
        Routes = [\<lparr>Path = ''/a'', Target = ''http://a'', QPS = 5\<rparr>],
        GlobalRateLimit = \<lparr>GlobalRateLimit_Cap = 3, GlobalRateLimit_Rate = 1\<rparr>, Timeout = Second\<rparr>"
  let ?r = "\<lparr>Method = ''GET'', URL_Path = ''/x'', Req_Header = Map.empty\<rparr>"
  have h: "routeLimiters (main_state ?c 0 0 0) (URL_Path ?r) = None"
    by (simp add: main_state_def main_limiters_def routeLimiters_make_def word_sless_alt)
  have g: "globalLimiter (main_state ?c 0 0 0) = NewTokenBucket 1 1 0"
    and c: "clock (main_state ?c 0 0 0) = 0"
    by (simp_all add: main_state_def main_limiters_def globalLimiter_init_def)
  have "Allow (NewTokenBucket 1 1 0) (LastCheck (NewTokenBucket 1 1 0)) = Some (acquire (NewTokenBucket 1 1 0))"
    by (rule Allow_no_elapsed) (simp add: NewTokenBucket_def)
  then have a: "Allow (NewTokenBucket 1 1 0) 0
      = Some (True, \<lparr>Cap = 1, Rate = 1, interval = Second, Tokens = 0, LastCheck = 0\<rparr>)"
    by (simp add: NewTokenBucket_def acquire_def word_sless_alt)
  from fallback_bucket_fixed [OF h, of "\<lambda>w r s. Some s" Conn] h show ?thesis
    by (simp add: g c a)
qed

subsection \<open>The composition of the stages\<close>

lemma ChainMiddleware_loop_take:
  "n \<le> length ms \<Longrightarrow>
   ChainMiddleware_loop h ms (int n - 1) = foldr (\<lambda>m next. m next) (take n ms) h"
proof (induction n arbitrary: h)
  case 0
  show ?case by (subst ChainMiddleware_loop.simps) simp
next
  case (Suc n)
  then have n: "n < length ms" by simp
  have "ChainMiddleware_loop h ms (int (Suc n) - 1) = ChainMiddleware_loop ((ms ! n) h) ms (int n - 1)"
    by (subst ChainMiddleware_loop.simps) simp
  also have "\<dots> = foldr (\<lambda>m next. m next) (take n ms) ((ms ! n) h)"
    using n by (intro Suc.IH) simp
  also have "\<dots> = foldr (\<lambda>m next. m next) (take (Suc n) ms) h"
    using n by (simp add: take_Suc_conv_app_nth)
  finally show ?case .
qed

lemma ChainMiddleware_foldr: "ChainMiddleware h ms = foldr (\<lambda>m next. m next) ms h"
  using ChainMiddleware_loop_take [of "length ms" ms h] by (simp add: ChainMiddleware_def)

text \<open>
  Claim C6. \<^verbatim>\<open>ChainMiddleware(h, m1, ..., mn)\<close> is \<open>m1 (m2 (... (mn h)))\<close>: the fold of
  the list from the right. With no stage it is \<open>h\<close>, and the first stage of the list
  is applied last, so it is the outermost: the handler of the chain is the first stage
  applied to the chain of the rest, and a request enters it first.
\<close>

theorem ChainMiddleware_composition:
  "ChainMiddleware h ms = foldr (\<lambda>m next. m next) ms h \<and>
   ChainMiddleware h [] = h \<and>
   ChainMiddleware h (m # ms) = m (ChainMiddleware h ms)"
  by (simp add: ChainMiddleware_foldr)

subsection \<open>The logging stage\<close>

lemma LogMiddleware_status_zero:
  "\<exists>s'. LogMiddleware (\<lambda>w r s. Some (http_Error w msg code s)) Conn r
           (main_state config t0 t1 now) = Some s'
     \<and> resp_status (response s') = Some code
     \<and> logged s' = [AccessLog (Method r) (URL_Path r) 0 0]"
  by (simp add: LogMiddleware_def Let_def main_state_def http_Error_def log_Printf_def
      Time_Sub_same float_mul_def)

text \<open>
  Claim C7 asks that the log entry record the status code written to the response.
  The stage passes \<open>w\<close>, not its wrapper, to the wrapped handler, so the wrapper's
  \<^verbatim>\<open>StatusCode\<close> stays at its initial zero: whatever status code the wrapped handler
  writes with \<^verbatim>\<open>http.Error\<close>, the entry records 0 (\<open>LogMiddleware_status_zero\<close>). In the
  theorem the wrapped handler answers 404 as \<^verbatim>\<open>proxyHandler\<close> does for an unknown path:
  the response has status 404 and the one log entry records status 0.
\<close>

theorem log_stage_records_zero:
  "\<exists>s'. LogMiddleware (\<lambda>w r s. Some (http_Error w ''404 Route Not Found'' 404 s)) Conn
           \<lparr>Method = ''GET'', URL_Path = ''/nowhere'', Req_Header = Map.empty\<rparr>
           (main_state config t0 t1 now) = Some s'
     \<and> resp_status (response s') = Some 404
     \<and> logged s' = [AccessLog ''GET'' ''/nowhere'' 0 0]"
  by (simp add: LogMiddleware_def Let_def main_state_def http_Error_def log_Printf_def
      Time_Sub_same float_mul_def)

subsection \<open>The timeout in force\<close>

lemma loadConfig_Timeout_default:
  "Timeout parsed = 0 \<Longrightarrow> \<exists>config. loadConfig (Inr parsed) = Inr config \<and> Timeout config = 1 * Second"
  by (simp add: loadConfig_def Let_def)

lemma main_handler_Timeout:
  "main_handler proxyHandler (config\<lparr>Timeout := t\<rparr>) = main_handler proxyHandler config"
proof -
  have "AuthMiddleware (config\<lparr>Timeout := t\<rparr>) = AuthMiddleware config"
    by (intro ext) (simp add: AuthMiddleware_def)
  then show ?thesis by (simp add: main_handler_def main_middlewares_def)
qed

text \<open>
  Claim C8 asks for a 504 whenever the work behind the timeout stage takes longer than
  the timeout of the loaded configuration. \<^verbatim>\<open>main\<close> builds the stage with three seconds,
  whatever the configuration says (\<open>main_handler_Timeout\<close>). Here the file sets no
  timeout, so the loaded one is a second; the backend answers 200 after two seconds;
  the request carries a valid key and is the first one. The handler of \<^verbatim>\<open>main\<close> returns
  two seconds later with status 200.
\<close>

theorem configured_timeout_not_enforced:
  "\<exists>config s'.
     loadConfig (Inr \<lparr>Port = [], ApiKeys = [''k''], NoAuthRoutes = [],
         Routes = [\<lparr>Path = ''/api/slow'', Target = ''http://backend'', QPS = 0\<rparr>],
         GlobalRateLimit = \<lparr>GlobalRateLimit_Cap = 0, GlobalRateLimit_Rate = 0\<rparr>, Timeout = 0\<rparr>) = Inr config
     \<and> Timeout config = 1000000000
     \<and> main_handler (\<lambda>routes w r s. Some (WriteHeader w 200 (s\<lparr>clock := clock s + 2000000000\<rparr>))) config Conn
          \<lparr>Method = ''GET'', URL_Path = ''/api/slow'', Req_Header = [''X-Api-Key'' \<mapsto> [''k'']]\<rparr>
          (main_state config 0 0 0) = Some s'
     \<and> clock s' = 2000000000
     \<and> resp_status (response s') = Some 200"
proof -
  have "Allow (NewTokenBucket 1 1 0) (LastCheck (NewTokenBucket 1 1 0)) = Some (acquire (NewTokenBucket 1 1 0))"
    by (rule Allow_no_elapsed) (simp add: NewTokenBucket_def)
  then have a: "Allow (NewTokenBucket 1 1 0) 0
      = Some (True, \<lparr>Cap = 1, Rate = 1, interval = Second, Tokens = 0, LastCheck = 0\<rparr>)"
    by (simp add: NewTokenBucket_def acquire_def word_sless_alt)
  show ?thesis
    by (simp add: loadConfig_def Let_def Second_def main_handler_def main_middlewares_def ChainMiddleware_foldr
        AuthMiddleware_def Header_Get_def RateLimitMiddleware_def find_limiter_def main_state_def
        main_limiters_def routeLimiters_make_def globalLimiter_init_def a Time_Sub_def
        maxDuration_def minDuration_def word_sless_alt CORSAMiddleware_def TimeoutMiddleware_def
        LogMiddleware_def log_Printf_def)
qed

end
